theory Spec2Isabelle
  imports Complex_Main "HOL-Library.Multiset"
begin

unbundle bit_operations_syntax

section \<open>Numbers, promises and signals\<close>

text \<open>
  The fields of \<open>worker.js\<close> are \<open>Float32Array\<close>s and every quantity is a JavaScript
  number. The model takes a number to be a real or \<open>Infinity\<close>, the sentinel the solver
  fills its field with: rounding to 32 or 64 bits is left out, and so are \<open>NaN\<close> and
  \<open>-Infinity\<close>, which no operation below produces from such numbers. The order is the
  order of JavaScript's comparisons on them.
\<close>

datatype num = Fin real | Infinity

instantiation num :: linorder
begin

fun less_eq_num :: "num \<Rightarrow> num \<Rightarrow> bool" where
  "less_eq_num (Fin a) (Fin b) = (a \<le> b)"
| "less_eq_num _ Infinity = True"
| "less_eq_num Infinity (Fin b) = False"

definition less_num :: "num \<Rightarrow> num \<Rightarrow> bool" where
  "less_num a b = (a \<le> b \<and> \<not> b \<le> a)"

instance
proof
  fix x y z :: num
  show "(x < y) = (x \<le> y \<and> \<not> y \<le> x)" by (simp add: less_num_def)
  show "x \<le> x" by (cases x) auto
  show "x \<le> y \<Longrightarrow> y \<le> z \<Longrightarrow> x \<le> z" by (cases x; cases y; cases z) auto
  show "x \<le> y \<Longrightarrow> y \<le> x \<Longrightarrow> x = y" by (cases x; cases y) auto
  show "x \<le> y \<or> y \<le> x" by (cases x; cases y) auto
qed

end

lemma num_less_simps [simp]:
  "(Fin a < Fin b) = (a < b)" "(Fin a < Infinity) = True" "(Infinity < x) = False"
  by (cases x; auto simp: less_num_def)+

text \<open>
  An \<open>async\<close> function returns a promise. What a caller that awaits it can see is how the
  promise settles: fulfilled with a value, rejected with the error thrown in the body, or
  never settled. A \<open>throw\<close> inside an \<open>async\<close> body is therefore the value \<open>Rejected\<close>.
\<close>

datatype js_error = TypeError string | ReferenceError string | Error string

datatype 'a promise = Fulfilled 'a | Rejected js_error | Pending

text \<open>
  The control flags \<open>isCancelled\<close> and \<open>isPaused\<close> are set by messages that arrive
  while a task is suspended. A task sees them only at its checkpoints (\<open>checkCancelled\<close>,
  then \<open>checkPause\<close>, lines 126-138): what it finds at a checkpoint is given from
  outside, as a signal. A pause that is later resumed lets the task go on and is
  \<open>Proceed\<close>; \<open>PausedForever\<close> is a pause with no resume after it.
\<close>

datatype signal = Proceed | CancelRequested | PausedForever

section \<open>The Fast Marching solver (worker.js, lines 155-303)\<close>

subsection \<open>The binary heap\<close>

text \<open>
  The heap is a JavaScript array of \<open>{x, y, value}\<close> objects. \<open>heapPush\<close> appends and
  sifts up, \<open>heapPop\<close> takes the root, moves the last entry to the root and sifts down.
  Both loops are the source's, with the swap written as two array updates.
\<close>

record item =
  item_x :: int
  item_y :: int
  item_value :: real

function sift_up :: "item list \<Rightarrow> nat \<Rightarrow> item list" where
  "sift_up h i =
     (if i > 0 then
        (let parent = (i - 1) div 2
         in if item_value (h ! parent) \<le> item_value (h ! i) then h
            else sift_up (h[parent := h ! i, i := h ! parent]) parent)
      else h)"
  by pat_completeness auto
termination
  by (relation "measure snd") auto

declare sift_up.simps [simp del]

definition heapPush :: "item list \<Rightarrow> item \<Rightarrow> item list" where
  "heapPush h it = sift_up (h @ [it]) (length (h @ [it]) - 1)"

definition smallest_of :: "item list \<Rightarrow> nat \<Rightarrow> nat" where
  "smallest_of h i =
     (let left = 2 * i + 1;
          right = 2 * i + 2;
          smallest = i;
          smallest = (if left < length h \<and> item_value (h ! left) < item_value (h ! smallest)
                      then left else smallest);
          smallest = (if right < length h \<and> item_value (h ! right) < item_value (h ! smallest)
                      then right else smallest)
      in smallest)"

lemma smallest_of_bounds:
  "smallest_of h i \<noteq> i \<Longrightarrow> i < smallest_of h i \<and> smallest_of h i < length h"
  by (auto simp: smallest_of_def Let_def split: if_splits)

function sift_down :: "item list \<Rightarrow> nat \<Rightarrow> item list" where
  "sift_down h i =
     (let smallest = smallest_of h i
      in if smallest = i then h
         else sift_down (h[i := h ! smallest, smallest := h ! i]) smallest)"
  by pat_completeness auto
termination
  by (relation "measure (\<lambda>(h, i). length h - i)") (auto dest: smallest_of_bounds)

declare sift_down.simps [simp del]

definition heapPop :: "item list \<Rightarrow> item option \<times> item list" where
  "heapPop h =
     (if length h = 0 then (None, h)
      else
        let result = h ! 0;
            lst = last h;
            h1 = butlast h
        in if length h1 > 0 then (Some result, sift_down (h1[0 := lst]) 0)
           else (Some result, h1))"

subsection \<open>The solver's state and one pass of its loop\<close>

text \<open>
  \<open>solution\<close> and \<open>visited\<close> are typed arrays of the fixed length \<open>width * height\<close>.
  They are modelled as total maps on indices; the code reads them only at indices of cells
  inside the grid, and a write outside the array, which JavaScript drops, changes an index
  that is never read. The input \<open>grayData\<close> is a list; reading it past its end gives
  \<open>undefined\<close>, which makes every comparison it enters false.
\<close>

record fmm_state =
  solution :: "int \<Rightarrow> num"
  visited :: "int \<Rightarrow> bool"
  heap :: "item list"
  processed :: nat

definition idx :: "nat \<Rightarrow> int \<Rightarrow> int \<Rightarrow> int" where
  "idx width x y = y * int width + x"

definition safeGet :: "(int \<Rightarrow> num) \<Rightarrow> nat \<Rightarrow> nat \<Rightarrow> int \<Rightarrow> int \<Rightarrow> num" where
  "safeGet sol width height x y =
     (if x < 0 \<or> x \<ge> int width \<or> y < 0 \<or> y \<ge> int height then Infinity
      else sol (idx width x y))"

definition Math_min :: "num list \<Rightarrow> num" where
  "Math_min ns = fold min ns Infinity"

definition gray_at :: "real list \<Rightarrow> int \<Rightarrow> real option" where
  "gray_at grayData i =
     (if 0 \<le> i \<and> nat i < length grayData then Some (grayData ! nat i) else None)"

text \<open>
  Lines 260-282: the tentative value from the two axis minima and the cost \<open>fVal\<close>;
  \<open>None\<close> is the \<open>continue\<close> taken when neither axis has a finite value.
\<close>

definition upwind :: "num \<Rightarrow> num \<Rightarrow> real \<Rightarrow> real option" where
  "upwind minX minY fVal =
     (case (minX, minY) of
        (Infinity, Infinity) \<Rightarrow> None
      | (Infinity, Fin my) \<Rightarrow> Some (my + fVal)
      | (Fin mx, Infinity) \<Rightarrow> Some (mx + fVal)
      | (Fin mx, Fin my) \<Rightarrow>
          (let mn = min mx my;
               other = max mx my
           in if other - mn \<ge> fVal then Some (mn + fVal)
              else
                let discriminant = 2 * fVal * fVal - (other - mn) * (other - mn)
                in if discriminant < 0 then Some (mn + fVal)
                   else Some ((mn + other + sqrt discriminant) / 2)))"

text \<open>
  Lines 244-261. \<open>x\<close> and \<open>y\<close> are the coordinates of the cell just popped, as in the
  source, where \<open>const { x, y } = current\<close>; \<open>nIdx\<close> is the index of the neighbour that
  is being given a value. When \<open>f[nIdx]\<close> is \<open>undefined\<close> the new value is \<open>NaN\<close> and
  the test of line 284 fails, as it does for \<open>None\<close> here.
\<close>

definition newValue :: "real list \<Rightarrow> nat \<Rightarrow> nat \<Rightarrow> (int \<Rightarrow> num) \<Rightarrow> int \<Rightarrow> int \<Rightarrow> int \<Rightarrow> real option" where
  "newValue f width height sol x y nIdx =
     (let ux = safeGet sol width height (x - 1) y;
          uy = safeGet sol width height x (y - 1);
          ux_next = safeGet sol width height (x + 1) y;
          uy_next = safeGet sol width height x (y + 1);
          neighborsX = (if ux < Infinity then [ux] else []) @ (if ux_next < Infinity then [ux_next] else []);
          neighborsY = (if uy < Infinity then [uy] else []) @ (if uy_next < Infinity then [uy_next] else []);
          minX = (if length neighborsX > 0 then Math_min neighborsX else Infinity);
          minY = (if length neighborsY > 0 then Math_min neighborsY else Infinity)
      in case gray_at f nIdx of
           None \<Rightarrow> None
         | Some fVal \<Rightarrow> upwind minX minY fVal)"

text \<open>
  The body of \<open>for (const neighbor of neighbors)\<close>, lines 238-288. The assignment of
  line 285 is the only write to \<open>solution\<close> after the initialisation.
\<close>

definition relax :: "real list \<Rightarrow> nat \<Rightarrow> nat \<Rightarrow> int \<Rightarrow> int \<Rightarrow> int \<times> int \<Rightarrow> fmm_state \<Rightarrow> fmm_state" where
  "relax f width height x y neighbor st =
     (let nx = fst neighbor; ny = snd neighbor
      in if nx < 0 \<or> nx \<ge> int width \<or> ny < 0 \<or> ny \<ge> int height then st
         else
           let nIdx = idx width nx ny
           in if visited st nIdx then st
              else
                (case newValue f width height (solution st) x y nIdx of
                   None \<Rightarrow> st
                 | Some nv \<Rightarrow>
                     if Fin nv < solution st nIdx then
                       st\<lparr>solution := (solution st)(nIdx := Fin nv),
                          heap := heapPush (heap st) \<lparr>item_x = nx, item_y = ny, item_value = nv\<rparr>\<rparr>
                     else st))"

text \<open>
  \<open>solution\<close> is a \<open>Float32Array\<close>: the assignment of line 285 rounds \<open>newValue\<close> to
  single precision, while the test of line 284 and the heap entry of line 286 take it
  unrounded. \<open>relax\<close> stores the value as it is. \<open>relax_stored\<close> is the same body with the
  rounding of the store made explicit, as a function \<open>fround\<close> from the reals to the
  numbers (a value too large for single precision becomes \<open>Infinity\<close>); with \<open>Fin\<close> for
  \<open>fround\<close> it is \<open>relax\<close>.
\<close>

definition relax_stored ::
  "(real \<Rightarrow> num) \<Rightarrow> real list \<Rightarrow> nat \<Rightarrow> nat \<Rightarrow> int \<Rightarrow> int \<Rightarrow> int \<times> int \<Rightarrow> fmm_state \<Rightarrow> fmm_state" where
  "relax_stored fround f width height x y neighbor st =
     (let nx = fst neighbor; ny = snd neighbor
      in if nx < 0 \<or> nx \<ge> int width \<or> ny < 0 \<or> ny \<ge> int height then st
         else
           let nIdx = idx width nx ny
           in if visited st nIdx then st
              else
                (case newValue f width height (solution st) x y nIdx of
                   None \<Rightarrow> st
                 | Some nv \<Rightarrow>
                     if Fin nv < solution st nIdx then
                       st\<lparr>solution := (solution st)(nIdx := fround nv),
                          heap := heapPush (heap st) \<lparr>item_x = nx, item_y = ny, item_value = nv\<rparr>\<rparr>
                     else st))"

text \<open>
  One pass of the \<open>while\<close> loop up to \<open>processed++\<close>, lines 225-291. The loop runs it
  only on a heap that is not empty, so the \<open>break\<close> on a \<open>null\<close> pop is never taken;
  here it leaves the state as it is.
\<close>

definition fmm_step :: "real list \<Rightarrow> nat \<Rightarrow> nat \<Rightarrow> fmm_state \<Rightarrow> fmm_state" where
  "fmm_step f width height st =
     (case heapPop (heap st) of
        (None, _) \<Rightarrow> st
      | (Some current, h') \<Rightarrow>
          let x = item_x current;
              y = item_y current;
              currentIdx = idx width x y;
              st1 = st\<lparr>heap := h', visited := (visited st)(currentIdx := True)\<rparr>;
              neighbors = [(x - 1, y), (x + 1, y), (x, y - 1), (x, y + 1)];
              st2 = fold (relax f width height x y) neighbors st1
          in st2\<lparr>processed := processed st2 + 1\<rparr>)"

definition batchSize :: nat where
  "batchSize = 1000"

subsection \<open>The loop ends\<close>

text \<open>
  A pass either visits a cell that was not visited, or pops an entry of a cell that was
  (the code does not skip such entries; it relaxes the neighbours again) and pushes only
  entries of cells that are not. So the pair (cells not yet visited, heap entries whose
  cell is visited or outside the grid) falls in the lexicographic order.
\<close>

definition in_grid :: "nat \<Rightarrow> nat \<Rightarrow> int \<Rightarrow> int \<Rightarrow> bool" where
  "in_grid width height x y = (\<not> (x < 0 \<or> x \<ge> int width \<or> y < 0 \<or> y \<ge> int height))"

definition unvisited :: "nat \<Rightarrow> nat \<Rightarrow> fmm_state \<Rightarrow> nat" where
  "unvisited width height st = card {i. 0 \<le> i \<and> i < int (width * height) \<and> \<not> visited st i}"

definition fresh :: "nat \<Rightarrow> nat \<Rightarrow> (int \<Rightarrow> bool) \<Rightarrow> item \<Rightarrow> bool" where
  "fresh width height vis it =
     (in_grid width height (item_x it) (item_y it) \<and> \<not> vis (idx width (item_x it) (item_y it)))"

definition stale :: "nat \<Rightarrow> nat \<Rightarrow> fmm_state \<Rightarrow> nat" where
  "stale width height st =
     size (filter_mset (\<lambda>it. \<not> fresh width height (visited st) it) (mset (heap st)))"

lemma mset_sift_up: "i < length h \<Longrightarrow> mset (sift_up h i) = mset h"
proof (induction h i rule: sift_up.induct)
  case (1 h i)
  show ?case
  proof (cases "i > 0 \<and> \<not> item_value (h ! ((i - 1) div 2)) \<le> item_value (h ! i)")
    case True
    then have p: "(i - 1) div 2 < length h" using 1(2) by auto
    have "mset (sift_up (h[(i - 1) div 2 := h ! i, i := h ! ((i - 1) div 2)]) ((i - 1) div 2)) = mset (h[(i - 1) div 2 := h ! i, i := h ! ((i - 1) div 2)])"
      using 1(1)[of "(i - 1) div 2"] True p by simp
    also have "\<dots> = mset h" using p 1(2) by (simp add: mset_swap)
    finally show ?thesis using True by (subst sift_up.simps) (simp add: Let_def)
  next
    case False
    then show ?thesis by (subst sift_up.simps) (auto simp: Let_def)
  qed
qed

lemma mset_heapPush: "mset (heapPush h it) = add_mset it (mset h)"
  by (simp add: heapPush_def mset_sift_up)

lemma mset_sift_down: "i < length h \<Longrightarrow> mset (sift_down h i) = mset h"
proof (induction h i rule: sift_down.induct)
  case (1 h i)
  show ?case
  proof (cases "smallest_of h i = i")
    case True
    then show ?thesis by (subst sift_down.simps) (simp add: Let_def)
  next
    case False
    from smallest_of_bounds[OF False] have b: "i < smallest_of h i" "smallest_of h i < length h" by auto
    have "mset (sift_down (h[i := h ! smallest_of h i, smallest_of h i := h ! i]) (smallest_of h i))
          = mset (h[i := h ! smallest_of h i, smallest_of h i := h ! i])"
      using 1(1)[OF refl False] b by simp
    also have "\<dots> = mset h" using b 1(2) by (simp add: mset_swap)
    finally show ?thesis using False by (subst sift_down.simps) (simp add: Let_def)
  qed
qed

lemma heapPop_mset:
  assumes "h \<noteq> []"
  shows "\<exists>it h'. heapPop h = (Some it, h') \<and> mset h = add_mset it (mset h')"
proof (cases "butlast h = []")
  case True
  with assms obtain a where "h = [a]" by (cases h) (auto split: if_splits)
  then show ?thesis by (simp add: heapPop_def)
next
  case False
  then obtain a b t where h: "h = a # t @ [b]"
    using assms by (metis append_butlast_last_id butlast.simps(2) list.exhaust neq_Nil_conv snoc_eq_iff_butlast)
  have "mset (sift_down ((a # t)[0 := b]) 0) = mset ((a # t)[0 := b])"
    by (rule mset_sift_down) simp
  then show ?thesis using h by (simp add: heapPop_def Let_def butlast_append)
qed

lemma in_grid_idx: "in_grid width height x y \<Longrightarrow> 0 \<le> idx width x y \<and> idx width x y < int (width * height)"
proof -
  assume a: "in_grid width height x y"
  then have x: "0 \<le> x" "x < int width" and y: "0 \<le> y" "y + 1 \<le> int height"
    by (auto simp: in_grid_def)
  have "y * int width + x < (y + 1) * int width" using x by (simp add: algebra_simps)
  also have "\<dots> \<le> int height * int width" using y x by (intro mult_right_mono) auto
  finally show ?thesis using x y by (simp add: idx_def mult.commute)
qed

lemma relax_visited [simp]: "visited (relax f w h x y nb st) = visited st"
  by (simp add: relax_def Let_def split: option.splits)

lemma relax_processed [simp]: "processed (relax f w h x y nb st) = processed st"
  by (simp add: relax_def Let_def split: option.splits)

lemma relax_stale: "stale w h (relax f w h x y nb st) = stale w h st"
  by (auto simp: relax_def Let_def stale_def mset_heapPush fresh_def in_grid_def split: option.splits)

lemma fold_relax_visited [simp]: "visited (fold (relax f w h x y) nbs st) = visited st"
  by (induction nbs arbitrary: st) auto

lemma fold_relax_stale: "stale w h (fold (relax f w h x y) nbs st) = stale w h st"
  by (induction nbs arbitrary: st) (auto simp: relax_stale)

lemma fold_relax_unvisited: "unvisited w h (fold (relax f w h x y) nbs st) = unvisited w h st"
  by (simp add: unvisited_def)

lemma stale_processed: "stale w h (st\<lparr>processed := n\<rparr>) = stale w h st"
  by (simp add: stale_def)

lemma unvisited_processed: "unvisited w h (st\<lparr>processed := n\<rparr>) = unvisited w h st"
  by (simp add: unvisited_def)

lemma fmm_step_decreases:
  assumes "heap st \<noteq> []"
  shows "unvisited w h (fmm_step f w h st) < unvisited w h st
       \<or> (unvisited w h (fmm_step f w h st) = unvisited w h st
          \<and> stale w h (fmm_step f w h st) < stale w h st)"
proof -
  from heapPop_mset[OF assms] obtain cur h' where
    pop: "heapPop (heap st) = (Some cur, h')" and ms: "mset (heap st) = add_mset cur (mset h')"
    by blast
  let ?ci = "idx w (item_x cur) (item_y cur)"
  let ?st1 = "st\<lparr>heap := h', visited := (visited st)(?ci := True)\<rparr>"
  let ?U = "\<lambda>vis. {i. 0 \<le> i \<and> i < int (w * h) \<and> \<not> vis i}"
  have "?U (visited st) \<subseteq> {0..<int (w * h)}" by auto
  then have fin: "finite (?U (visited st))" by (rule finite_subset) simp
  have fs: "fmm_step f w h st =
      (fold (relax f w h (item_x cur) (item_y cur))
         [(item_x cur - 1, item_y cur), (item_x cur + 1, item_y cur),
          (item_x cur, item_y cur - 1), (item_x cur, item_y cur + 1)] ?st1)
      \<lparr>processed := processed ?st1 + 1\<rparr>"
    using pop by (simp add: fmm_step_def Let_def del: fold_simps)
  have step: "unvisited w h (fmm_step f w h st) = unvisited w h ?st1"
             "stale w h (fmm_step f w h st) = stale w h ?st1"
    unfolding fs by (simp_all only: stale_processed unvisited_processed fold_relax_stale fold_relax_unvisited)
  show ?thesis
  proof (cases "?ci \<in> ?U (visited st)")
    case True
    have "?U ((visited st)(?ci := True)) = ?U (visited st) - {?ci}" by auto
    moreover have "card (?U (visited st) - {?ci}) < card (?U (visited st))"
      using fin True by (rule card_Diff1_less)
    ultimately have "card (?U ((visited st)(?ci := True))) < card (?U (visited st))"
      by simp
    then show ?thesis using step by (simp add: unvisited_def)
  next
    case False
    have same: "?U ((visited st)(?ci := True)) = ?U (visited st)"
      using False by auto
    have nf: "\<not> fresh w h (visited st) cur"
      using False in_grid_idx[of w h "item_x cur" "item_y cur"] by (auto simp: fresh_def)
    have fr: "fresh w h ((visited st)(?ci := True)) it = fresh w h (visited st) it" for it
      using False in_grid_idx[of w h "item_x it" "item_y it"] by (auto simp: fresh_def)
    have "stale w h st = Suc (stale w h ?st1)"
      using ms nf by (simp add: stale_def fr)
    then show ?thesis using step same by (simp add: unvisited_def)
  qed
qed

text \<open>
  The \<open>while (heap.length > 0)\<close> loop, lines 224-303, with its checkpoint every
  \<open>batchSize\<close> passes: \<open>checkCancelled\<close> throws, a pause that is never resumed leaves the
  task suspended for good.
\<close>

function fmm_loop :: "(nat \<Rightarrow> signal) \<Rightarrow> real list \<Rightarrow> nat \<Rightarrow> nat \<Rightarrow> fmm_state \<Rightarrow> fmm_state promise" where
  "fmm_loop env f width height st =
     (if length (heap st) > 0 then
        (let st' = fmm_step f width height st
         in if processed st' mod batchSize = 0 then
              (case env (processed st') of
                 CancelRequested \<Rightarrow> Rejected (Error ''Cancelled by user'')
               | PausedForever \<Rightarrow> Pending
               | Proceed \<Rightarrow> fmm_loop env f width height st')
            else fmm_loop env f width height st')
      else Fulfilled st)"
  by pat_completeness auto
termination
  apply (relation "inv_image (less_than <*lex*> less_than)
                   (\<lambda>(env, f, w, h, st). (unvisited w h st, stale w h st))")
  subgoal by (intro wf_inv_image wf_lex_prod wf_less_than)
  subgoal for env f width height st st'
    using fmm_step_decreases[of st width height f] by auto
  subgoal for env f width height st st'
    using fmm_step_decreases[of st width height f] by auto
  done

declare fmm_loop.simps [simp del]

text \<open>
  The initialisation, lines 155-180: every cell whose gray value is below the threshold
  gets distance 0, is marked visited and is appended to the heap array. The solver's
  result is the whole field and the number of passes.
\<close>

definition is_seed :: "real list \<Rightarrow> real \<Rightarrow> int \<Rightarrow> bool" where
  "is_seed grayData threshold i = (case gray_at grayData i of None \<Rightarrow> False | Some g \<Rightarrow> g < threshold)"

definition init_cell :: "real list \<Rightarrow> nat \<Rightarrow> real \<Rightarrow> nat \<Rightarrow> nat \<Rightarrow> fmm_state \<Rightarrow> fmm_state" where
  "init_cell grayData width threshold y x st =
     (let i = idx width (int x) (int y)
      in if is_seed grayData threshold i then
           st\<lparr>solution := (solution st)(i := Fin 0),
              visited := (visited st)(i := True),
              heap := heap st @ [\<lparr>item_x = int x, item_y = int y, item_value = 0\<rparr>]\<rparr>
         else st)"

definition init_state :: "real list \<Rightarrow> nat \<Rightarrow> nat \<Rightarrow> real \<Rightarrow> fmm_state" where
  "init_state grayData width height threshold =
     fold (\<lambda>y. fold (init_cell grayData width threshold y) [0..<width]) [0..<height]
       \<lparr>solution = (\<lambda>_. Infinity), visited = (\<lambda>_. False), heap = [], processed = 0\<rparr>"

definition solveEikonal :: "(nat \<Rightarrow> signal) \<Rightarrow> real list \<Rightarrow> nat \<Rightarrow> nat \<Rightarrow> real \<Rightarrow> (num list \<times> nat) promise" where
  "solveEikonal env grayData width height threshold =
     (case fmm_loop env grayData width height (init_state grayData width height threshold) of
        Fulfilled st \<Rightarrow> Fulfilled (map (\<lambda>i. solution st (int i)) [0..<width * height], processed st)
      | Rejected e \<Rightarrow> Rejected e
      | Pending \<Rightarrow> Pending)"
subsection \<open>The update as the specification words it\<close>

text \<open>
  For comparison with \<open>newValue\<close>: the specification's scheme at the cell \<open>(nx, ny)\<close> that
  is being updated. \<open>minX\<close> is the smaller of the finite distances of its two horizontal
  neighbours, \<open>minY\<close> of its two vertical ones, \<open>speed_cost\<close> its own gray value; the
  scheme is given for the case that both axes are finite.
\<close>

definition spec_upwind :: "real \<Rightarrow> real \<Rightarrow> real \<Rightarrow> real" where
  "spec_upwind minX minY speed_cost =
     (let lo = min minX minY;
          hi = max minX minY
      in if hi - lo \<ge> speed_cost then lo + speed_cost
         else
           let discriminant = 2 * speed_cost\<^sup>2 - (hi - lo)\<^sup>2
           in if discriminant < 0 then lo + speed_cost
              else (lo + hi + sqrt discriminant) / 2)"

definition spec_update :: "real list \<Rightarrow> nat \<Rightarrow> nat \<Rightarrow> (int \<Rightarrow> num) \<Rightarrow> int \<Rightarrow> int \<Rightarrow> real option" where
  "spec_update f width height sol nx ny =
     (case (min (safeGet sol width height (nx - 1) ny) (safeGet sol width height (nx + 1) ny),
            min (safeGet sol width height nx (ny - 1)) (safeGet sol width height nx (ny + 1)),
            gray_at f (idx width nx ny)) of
        (Fin minX, Fin minY, Some speed_cost) \<Rightarrow> Some (spec_upwind minX minY speed_cost)
      | _ \<Rightarrow> None)"

section \<open>Contour extraction (worker.js, lines 340-410 and 937-982)\<close>

text \<open>
  What the contour handler reads: the distance field, the grid size, the edge-guidance
  options and the edge map, which is \<open>null\<close> when edge guidance is off.
\<close>

record contour_env =
  c_solution :: "num list"
  c_width :: nat
  c_height :: nat
  edgeGuidance :: bool
  edgeSensitivity :: real
  edgeMap :: "real list option"

definition contour_safeGet :: "contour_env \<Rightarrow> int \<Rightarrow> int \<Rightarrow> num" where
  "contour_safeGet env x y =
     (if x < 0 \<or> x \<ge> int (c_width env) \<or> y < 0 \<or> y \<ge> int (c_height env) then Infinity
      else c_solution env ! nat (y * int (c_width env) + x))"

definition interp :: "num \<Rightarrow> num \<Rightarrow> real \<Rightarrow> real" where
  "interp v1 v2 level =
     (case (v1, v2) of
        (Fin a, Fin b) \<Rightarrow>
          (let diff = b - a
           in if \<bar>diff\<bar> < 0.00001 then 0.5 else max 0 (min 1 ((level - a) / diff)))
      | _ \<Rightarrow> 0.5)"

text \<open>
  \<open>snapToEdge\<close>, lines 954-982: the 7 by 7 window around the point is searched for the
  largest edge value; \<open>snap_probe\<close> is the body of the inner loop.
\<close>

definition snap_probe :: "contour_env \<Rightarrow> real \<Rightarrow> real \<Rightarrow> int \<Rightarrow> int \<Rightarrow> real \<times> real \<times> real \<Rightarrow> real \<times> real \<times> real" where
  "snap_probe env x y dy dx best =
     (let nx = x + of_int dx; ny = y + of_int dy
      in if nx < 0 \<or> nx \<ge> real (c_width env) \<or> ny < 0 \<or> ny \<ge> real (c_height env) then best
         else
           let i = nat (\<lfloor>ny\<rfloor> * int (c_width env) + \<lfloor>nx\<rfloor>);
               edgeVal = (case edgeMap env of None \<Rightarrow> 0 | Some em \<Rightarrow> em ! i)
           in case best of (bestX, bestY, bestEdgeVal) \<Rightarrow>
                if edgeVal > bestEdgeVal then (nx, ny, edgeVal) else best)"

definition snapToEdge :: "contour_env \<Rightarrow> real \<Rightarrow> real \<Rightarrow> real \<times> real" where
  "snapToEdge env x y =
     (case fold (\<lambda>dy. fold (snap_probe env x y dy) [-3..3]) [-3..3] (x, y, 0) of
        (bestX, bestY, _) \<Rightarrow>
          (x + (bestX - x) * edgeSensitivity env, y + (bestY - y) * edgeSensitivity env))"

record line =
  line_x1 :: real
  line_y1 :: real
  line_x2 :: real
  line_y2 :: real

text \<open>
  \<open>addLine\<close>, lines 374-382. Without edge guidance the first end takes \<open>y + y2\<close>, as the
  source has it.
\<close>

definition addLine :: "contour_env \<Rightarrow> int \<Rightarrow> int \<Rightarrow> real \<Rightarrow> real \<Rightarrow> real \<Rightarrow> real \<Rightarrow> line" where
  "addLine env x y x1 y1 x2 y2 =
     (if edgeGuidance env \<and> edgeSensitivity env > 0.1 then
        (let p1 = snapToEdge env (of_int x + x1) (of_int y + y1);
             p2 = snapToEdge env (of_int x + x2) (of_int y + y2)
         in \<lparr>line_x1 = fst p1, line_y1 = snd p1, line_x2 = fst p2, line_y2 = snd p2\<rparr>)
      else \<lparr>line_x1 = of_int x + x1, line_y1 = of_int y + y2,
             line_x2 = of_int x + x2, line_y2 = of_int y + y2\<rparr>)"

definition cell_code :: "num \<Rightarrow> num \<Rightarrow> num \<Rightarrow> num \<Rightarrow> real \<Rightarrow> nat" where
  "cell_code v00 v10 v01 v11 level =
     (let code = 0;
          code = (if v00 \<ge> Fin level then code OR 1 else code);
          code = (if v10 \<ge> Fin level then code OR 2 else code);
          code = (if v01 \<ge> Fin level then code OR 4 else code);
          code = (if v11 \<ge> Fin level then code OR 8 else code)
      in code)"

text \<open>
  The segments of one 2 by 2 block at one level: lines 361-410, the \<open>switch\<close> with its
  cases in the source's order.
\<close>

definition cell_lines :: "contour_env \<Rightarrow> real \<Rightarrow> int \<Rightarrow> int \<Rightarrow> line list" where
  "cell_lines env level x y =
     (let v00 = contour_safeGet env x y;
          v10 = contour_safeGet env (x + 1) y;
          v01 = contour_safeGet env x (y + 1);
          v11 = contour_safeGet env (x + 1) (y + 1);
          code = cell_code v00 v10 v01 v11 level
      in if code = 1 \<or> code = 14 then
           [addLine env x y 0 (interp v00 v10 level) 0.5 0]
         else if code = 2 \<or> code = 13 then
           [addLine env x y 0.5 0 1 (interp v10 v11 level)]
         else if code = 3 \<or> code = 12 then
           [addLine env x y 0 (interp v00 v10 level) 1 (interp v01 v11 level)]
         else if code = 4 \<or> code = 11 then
           [addLine env x y 0.5 1 (interp v01 v11 level) 1]
         else if code = 5 then
           [addLine env x y 0 (interp v00 v10 level) 0.5 1,
            addLine env x y 0.5 0 (interp v01 v11 level) 1]
         else if code = 6 \<or> code = 9 then
           [addLine env x y 0.5 0 0.5 1]
         else if code = 7 \<or> code = 8 then
           [addLine env x y 0 (interp v00 v10 level) 0.5 1,
            addLine env x y 0.5 0 1 (interp v10 v11 level)]
         else if code = 10 then
           [addLine env x y 0 (interp v00 v10 level) 1 (interp v01 v11 level),
            addLine env x y 0.5 0 0.5 1]
         else [])"

text \<open>
  \<open>generateAdaptiveLevels\<close>, lines 937-952. \<open>min\<close> and \<open>max\<close> come from the scan of the
  field; \<open>max\<close> is \<open>-Infinity\<close> only for a field with no cell, where \<open>min\<close> is
  \<open>Infinity\<close> and the first test has returned. \<open>targetLevels\<close> is computed and never
  read. The \<open>for\<close> loop has no bound but \<open>l < max\<close>, so it is a partial function: with
  an interval that is not positive, or with an infinite \<open>max\<close>, it does not return.
\<close>

partial_function (option) levels_loop :: "real \<Rightarrow> num \<Rightarrow> real \<Rightarrow> real list \<Rightarrow> real list option" where
  "levels_loop interval mx l levels =
     (if Fin l < mx then levels_loop interval mx (l + interval) (levels @ [l]) else Some levels)"

definition generateAdaptiveLevels :: "real \<Rightarrow> num \<Rightarrow> num \<Rightarrow> real list option" where
  "generateAdaptiveLevels interval mn mx =
     (case mn of
        Infinity \<Rightarrow> Some []
      | Fin a \<Rightarrow>
          (case mx of
             Fin b \<Rightarrow>
               (let range = b - a
                in if range < 0.001 then Some [a + range / 2]
                   else levels_loop interval mx (a + interval) [])
           | Infinity \<Rightarrow> levels_loop interval mx (a + interval) []))"

section \<open>The stipple sampler (worker.js, lines 582-699)\<close>

text \<open>
  Points have real coordinates. The sampler reads the gray field, the image size, the
  interval (its largest radius) and the threshold; \<open>random\<close> gives the successive results
  of \<open>Math.random()\<close>, and \<open>drawn\<close> counts how many have been used. The spatial grid is
  an \<open>Int32Array\<close> holding one point index per cell, \<open>-1\<close> for an empty cell; it is a
  total map on indices, like the solver's arrays.
\<close>

record point =
  px :: real
  py :: real

record stipple_env =
  s_grayData :: "real list"
  s_width :: nat
  s_height :: nat
  s_interval :: real
  s_threshold :: real
  random :: "nat \<Rightarrow> real"
  s_signal :: "nat \<Rightarrow> signal"

record stipple_state =
  points :: "point list"
  grid :: "int \<Rightarrow> int"
  active :: "nat list"
  drawn :: nat
  passes :: nat

definition minRadius :: real where
  "minRadius = 1.5"

definition maxRadius :: "stipple_env \<Rightarrow> real" where
  "maxRadius env = s_interval env"

definition cellSize :: "stipple_env \<Rightarrow> real" where
  "cellSize env = maxRadius env / sqrt 2"

definition gridWidth :: "stipple_env \<Rightarrow> int" where
  "gridWidth env = \<lceil>real (s_width env) / cellSize env\<rceil>"

definition gridHeight :: "stipple_env \<Rightarrow> int" where
  "gridHeight env = \<lceil>real (s_height env) / cellSize env\<rceil>"

definition mask :: "stipple_env \<Rightarrow> int \<Rightarrow> bool" where
  "mask env i = (i < int (s_width env * s_height env) \<and> is_seed (s_grayData env) (s_threshold env) i)"

definition activePixels :: "stipple_env \<Rightarrow> nat" where
  "activePixels env = length (filter (\<lambda>g. g < s_threshold env) (s_grayData env))"

text \<open>
  \<open>getRadius\<close> and \<open>insertPoint\<close>, lines 607-620. \<open>insertPoint\<close> overwrites the grid entry
  of the point's cell with the new index.
\<close>

definition getRadius :: "stipple_env \<Rightarrow> real \<Rightarrow> real \<Rightarrow> real" where
  "getRadius env x y =
     (let i = \<lfloor>y\<rfloor> * int (s_width env) + \<lfloor>x\<rfloor>;
          val = s_grayData env ! nat i
      in minRadius + (val * (maxRadius env - minRadius)))"

definition insertPoint :: "stipple_env \<Rightarrow> point \<Rightarrow> stipple_state \<Rightarrow> stipple_state" where
  "insertPoint env p st =
     (let i = length (points st);
          gx = \<lfloor>px p / cellSize env\<rfloor>;
          gy = \<lfloor>py p / cellSize env\<rfloor>
      in st\<lparr>points := points st @ [p],
            grid := (grid st)(gy * gridWidth env + gx := int i),
            active := active st @ [i]\<rparr>)"

text \<open>
  The test of one grid cell against a candidate, lines 665-676, and the scan of the cells
  within \<open>checkRange\<close>, lines 660-679; the \<open>break\<close>s only end the scan at the first
  point that is too close.
\<close>

definition checkRange :: "stipple_env \<Rightarrow> int" where
  "checkRange env = \<lceil>maxRadius env / cellSize env\<rceil>"

definition near_cell :: "stipple_env \<Rightarrow> stipple_state \<Rightarrow> real \<Rightarrow> real \<Rightarrow> real \<Rightarrow> int \<Rightarrow> int \<Rightarrow> bool" where
  "near_cell env st nx ny nr ngx ngy =
     (ngx \<ge> 0 \<and> ngx < gridWidth env \<and> ngy \<ge> 0 \<and> ngy < gridHeight env \<and>
      (let neighborIdx = grid st (ngy * gridWidth env + ngx)
       in neighborIdx \<noteq> -1 \<and>
          (let neighbor = points st ! nat neighborIdx;
               dSq = (nx - px neighbor)\<^sup>2 + (ny - py neighbor)\<^sup>2;
               minDist = (nr + getRadius env (px neighbor) (py neighbor)) / 2
           in dSq < minDist * minDist)))"

definition tooClose :: "stipple_env \<Rightarrow> stipple_state \<Rightarrow> real \<Rightarrow> real \<Rightarrow> real \<Rightarrow> bool" where
  "tooClose env st nx ny nr =
     (let gx = \<lfloor>nx / cellSize env\<rfloor>;
          gy = \<lfloor>ny / cellSize env\<rfloor>
      in list_ex (\<lambda>dy. list_ex (\<lambda>dx. near_cell env st nx ny nr (gx + dx) (gy + dy))
                          [- checkRange env..checkRange env])
                 [- checkRange env..checkRange env])"

text \<open>
  One dart, lines 647-686: the candidate is drawn from two random numbers; it is accepted
  when it lies in the image, on the mask, and no grid cell in range holds a point too
  close to it. \<open>try_candidates\<close> is the \<open>for\<close> loop over the at most \<open>k\<close> darts.
\<close>

definition candidate :: "stipple_env \<Rightarrow> point \<Rightarrow> real \<Rightarrow> nat \<Rightarrow> point" where
  "candidate env p r d =
     (let angle = random env d * pi * 2;
          dist = r + random env (d + 1) * r
      in \<lparr>px = px p + cos angle * dist, py = py p + sin angle * dist\<rparr>)"

definition accepts :: "stipple_env \<Rightarrow> stipple_state \<Rightarrow> point \<Rightarrow> bool" where
  "accepts env st c =
     (if px c \<ge> 0 \<and> px c < real (s_width env) \<and> py c \<ge> 0 \<and> py c < real (s_height env) then
        if \<not> mask env (\<lfloor>py c\<rfloor> * int (s_width env) + \<lfloor>px c\<rfloor>) then False
        else
          let nr = getRadius env (px c) (py c)
          in \<not> tooClose env st (px c) (py c) nr
      else False)"

fun try_candidates :: "stipple_env \<Rightarrow> point \<Rightarrow> real \<Rightarrow> nat \<Rightarrow> stipple_state \<Rightarrow> bool \<times> stipple_state" where
  "try_candidates env p r 0 st = (False, st)"
| "try_candidates env p r (Suc n) st =
     (let c = candidate env p r (drawn st);
          st1 = st\<lparr>drawn := drawn st + 2\<rparr>
      in if accepts env st1 c then (True, insertPoint env c st1)
         else try_candidates env p r n st1)"

definition k_attempts :: nat where
  "k_attempts = 20"

definition splice1 :: "nat \<Rightarrow> 'a list \<Rightarrow> 'a list" where
  "splice1 i xs = take i xs @ drop (Suc i) xs"

text \<open>
  One pass of the \<open>while\<close> loop after its checkpoint, lines 640-691. \<open>Math.random()\<close>
  is below 1, so the picked index is in range; for a draw that is not, \<open>p\<close> would be
  \<open>undefined\<close> and reading \<open>p.x\<close> would throw.
\<close>

definition pick :: "stipple_env \<Rightarrow> stipple_state \<Rightarrow> int" where
  "pick env st = \<lfloor>random env (drawn st) * real (length (active st))\<rfloor>"

definition stipple_pass :: "stipple_env \<Rightarrow> stipple_state \<Rightarrow> js_error + stipple_state" where
  "stipple_pass env st =
     (let activeIdx = pick env st;
          st1 = st\<lparr>drawn := drawn st + 1, passes := passes st + 1\<rparr>
      in if activeIdx < 0 \<or> activeIdx \<ge> int (length (active st)) then Inl (TypeError ''p is undefined'')
         else
           let pIdx = active st ! nat activeIdx
           in if pIdx \<ge> length (points st) then Inl (TypeError ''p is undefined'')
              else
                let p = points st ! pIdx;
                    r = getRadius env (px p) (py p)
                in case try_candidates env p r k_attempts st1 of
                     (found, st2) \<Rightarrow>
                       Inr (if \<not> found then st2\<lparr>active := splice1 (nat activeIdx) (active st2)\<rparr>
                            else st2))"

lemma insertPoint_points: "points (insertPoint env p st) = points st @ [p]"
  by (simp add: insertPoint_def Let_def)

lemma try_candidates_shape:
  "try_candidates env p r n st = (found, st') \<Longrightarrow>
     (found \<longrightarrow> length (points st') = Suc (length (points st))) \<and>
     (\<not> found \<longrightarrow> points st' = points st \<and> active st' = active st)"
proof (induction n arbitrary: st)
  case 0
  then show ?case by auto
next
  case (Suc n)
  let ?st1 = "st\<lparr>drawn := drawn st + 2\<rparr>"
  let ?c = "candidate env p r (drawn st)"
  show ?case
  proof (cases "accepts env ?st1 ?c")
    case True
    then have "try_candidates env p r (Suc n) st = (True, insertPoint env ?c ?st1)"
      by (simp add: Let_def)
    with Suc.prems show ?thesis by (auto simp: insertPoint_points)
  next
    case False
    then have "try_candidates env p r (Suc n) st = try_candidates env p r n ?st1"
      by (simp add: Let_def)
    with Suc.prems have "try_candidates env p r n ?st1 = (found, st')" by simp
    from Suc.IH[OF this] show ?thesis by simp
  qed
qed

lemma stipple_pass_measure:
  "stipple_pass env st = Inr st' \<Longrightarrow> active st \<noteq> [] \<Longrightarrow>
   length (points st') = Suc (length (points st))
   \<or> (length (points st') = length (points st) \<and> length (active st') < length (active st))"
proof -
  assume a: "stipple_pass env st = Inr st'" and ne: "active st \<noteq> []"
  let ?i = "pick env st"
  from a have rng: "0 \<le> ?i" "?i < int (length (active st))"
    by (auto simp: stipple_pass_def Let_def split: if_splits)
  from a have pin: "active st ! nat ?i < length (points st)"
    by (auto simp: stipple_pass_def Let_def split: if_splits)
  let ?st1 = "st\<lparr>drawn := drawn st + 1, passes := passes st + 1\<rparr>"
  let ?p = "points st ! (active st ! nat ?i)"
  obtain found st2 where t: "try_candidates env ?p (getRadius env (px ?p) (py ?p)) k_attempts ?st1 = (found, st2)"
    by (cases "try_candidates env ?p (getRadius env (px ?p) (py ?p)) k_attempts ?st1")
  from a rng pin t have st': "st' = (if \<not> found then st2\<lparr>active := splice1 (nat ?i) (active st2)\<rparr> else st2)"
    by (simp add: stipple_pass_def Let_def)
  from try_candidates_shape[OF t] have sh:
    "found \<Longrightarrow> length (points st2) = Suc (length (points st))"
    "\<not> found \<Longrightarrow> points st2 = points st \<and> active st2 = active st"
    by auto
  show ?thesis
  proof (cases found)
    case True
    then show ?thesis using st' sh by simp
  next
    case False
    from rng have n: "nat ?i < length (active st)" by linarith
    have "length (splice1 (nat ?i) (active st)) < length (active st)"
      using n by (simp add: splice1_def)
    then have "length (active st') < length (active st)"
      using st' sh False by simp
    then show ?thesis using st' sh False by simp
  qed
qed

text \<open>
  The loop, lines 636-699: the checkpoint, one pass, and the test of line 698 after it.
  (The progress posts of lines 693-696 change nothing in the sampler's state.)
\<close>

definition maxPoints :: nat where
  "maxPoints = 150000"

function stipple_loop :: "stipple_env \<Rightarrow> stipple_state \<Rightarrow> stipple_state promise" where
  "stipple_loop env st =
     (if length (active st) > 0 then
        (case s_signal env (passes st) of
           CancelRequested \<Rightarrow> Rejected (Error ''Cancelled by user'')
         | PausedForever \<Rightarrow> Pending
         | Proceed \<Rightarrow>
             (case stipple_pass env st of
                Inl e \<Rightarrow> Rejected e
              | Inr st' \<Rightarrow>
                  if length (points st') > maxPoints then Fulfilled st'
                  else stipple_loop env st'))
      else Fulfilled st)"
  by pat_completeness auto
termination
proof (relation "inv_image (less_than <*lex*> less_than)
                   (\<lambda>(env, st). (Suc maxPoints - length (points st), length (active st)))", goal_cases)
  case 1
  show ?case by (intro wf_inv_image wf_lex_prod wf_less_than)
next
  case (2 env st st')
  then have ne: "active st \<noteq> []" and le: "length (points st') \<le> maxPoints" by auto
  from stipple_pass_measure[OF 2(3) ne] le show ?case by auto
qed

declare stipple_loop.simps [simp del]

text \<open>
  The seeds, lines 622-634, and the handler's result: no point at all when the mask is
  empty, else the points the loop ends with.
\<close>

fun seed_attempts :: "stipple_env \<Rightarrow> nat \<Rightarrow> stipple_state \<Rightarrow> stipple_state" where
  "seed_attempts env 0 st = st"
| "seed_attempts env (Suc n) st =
     (let rx = random env (drawn st) * real (s_width env);
          ry = random env (drawn st + 1) * real (s_height env);
          st1 = st\<lparr>drawn := drawn st + 2\<rparr>
      in if mask env (\<lfloor>ry\<rfloor> * int (s_width env) + \<lfloor>rx\<rfloor>) then insertPoint env \<lparr>px = rx, py = ry\<rparr> st1
         else seed_attempts env n st1)"

definition numSeeds :: "stipple_env \<Rightarrow> nat" where
  "numSeeds env = nat (min 10 \<lceil>real (activePixels env) / 10000\<rceil>)"

definition seed_points :: "stipple_env \<Rightarrow> stipple_state" where
  "seed_points env =
     (let st0 = \<lparr>points = [], grid = (\<lambda>_. -1), active = [], drawn = 0, passes = 0\<rparr>;
          st1 = fold (\<lambda>s. seed_attempts env 50) [0..<numSeeds env] st0
      in if length (points st1) = 0
         then insertPoint env \<lparr>px = real (s_width env) / 2, py = real (s_height env) / 2\<rparr> st1
         else st1)"

definition extractStipple :: "stipple_env \<Rightarrow> point list promise" where
  "extractStipple env =
     (if activePixels env = 0 then Fulfilled []
      else case stipple_loop env (seed_points env) of
             Fulfilled st \<Rightarrow> Fulfilled (points st)
           | Rejected e \<Rightarrow> Rejected e
           | Pending \<Rightarrow> Pending)"

section \<open>The tour builder (worker.js, lines 721-800)\<close>

text \<open>
  The tour builder takes the points of the stipple result (line 721), files their indices
  in a grid of 30-pixel cells, and repeatedly walks from the current point to the nearest
  point not yet used, searching the grid in square rings of growing radius. \<open>used\<close> is
  a \<open>Uint8Array\<close> of the length of the point list. A point whose cell lies outside the
  grid makes \<open>grid[...]\<close> undefined, and the \<open>push\<close> on it throws a \<open>TypeError\<close>. The
  checkpoint of lines 748-757 is passed every time \<open>remaining\<close> is a multiple of 1000.
\<close>

record tsp_env =
  t_points :: "point list"
  t_grid :: "nat list list"
  t_gridWidth :: int
  t_gridHeight :: int
  t_signal :: "nat \<Rightarrow> signal"

record scan_state =
  nearestIdx :: int
  minDistSq :: num
  found :: bool

record tsp_state =
  currentIdx :: nat
  orderedPoints :: "point list"
  used :: "bool list"
  remaining :: nat

definition tsp_cellSize :: real where
  "tsp_cellSize = 30"

definition build_cell :: "point list \<Rightarrow> int \<Rightarrow> nat \<Rightarrow> js_error + nat list list \<Rightarrow> js_error + nat list list" where
  "build_cell pts gw i g =
     (case g of
        Inl e \<Rightarrow> Inl e
      | Inr cells \<Rightarrow>
          let gx = \<lfloor>px (pts ! i) / tsp_cellSize\<rfloor>;
              gy = \<lfloor>py (pts ! i) / tsp_cellSize\<rfloor>;
              c = gy * gw + gx
          in if c < 0 \<or> c \<ge> int (length cells) then Inl (TypeError ''grid cell is undefined'')
             else Inr (cells[nat c := cells ! nat c @ [i]]))"

definition build_grid :: "point list \<Rightarrow> int \<Rightarrow> int \<Rightarrow> js_error + nat list list" where
  "build_grid pts gw gh =
     fold (build_cell pts gw) [0..<length pts] (Inr (replicate (nat (gw * gh)) []))"

definition scan_point :: "tsp_env \<Rightarrow> bool list \<Rightarrow> point \<Rightarrow> nat \<Rightarrow> scan_state \<Rightarrow> scan_state" where
  "scan_point env usd cp pIdx s =
     (if \<not> usd ! pIdx then
        (let dSq = (px cp - px (t_points env ! pIdx))\<^sup>2 + (py cp - py (t_points env ! pIdx))\<^sup>2
         in if Fin dSq < minDistSq s then \<lparr>nearestIdx = int pIdx, minDistSq = Fin dSq, found = True\<rparr>
            else s)
      else s)"

definition ring_probe :: "tsp_env \<Rightarrow> bool list \<Rightarrow> point \<Rightarrow> int \<Rightarrow> int \<Rightarrow> int \<Rightarrow> int \<Rightarrow> int \<Rightarrow> scan_state \<Rightarrow> scan_state" where
  "ring_probe env usd cp gx gy searchRadius dy dx s =
     (if \<bar>dx\<bar> \<noteq> searchRadius \<and> \<bar>dy\<bar> \<noteq> searchRadius \<and> searchRadius > 0 then s
      else
        let ngx = gx + dx;
            ngy = gy + dy
        in if ngx \<ge> 0 \<and> ngx < t_gridWidth env \<and> ngy \<ge> 0 \<and> ngy < t_gridHeight env then
             fold (scan_point env usd cp) (t_grid env ! nat (ngy * t_gridWidth env + ngx)) s
           else s)"

definition scan_ring :: "tsp_env \<Rightarrow> bool list \<Rightarrow> point \<Rightarrow> int \<Rightarrow> int \<Rightarrow> int \<Rightarrow> scan_state \<Rightarrow> scan_state" where
  "scan_ring env usd cp gx gy searchRadius s =
     fold (\<lambda>dy. fold (ring_probe env usd cp gx gy searchRadius dy) [- searchRadius..searchRadius])
       [- searchRadius..searchRadius] s"

function ring_search :: "tsp_env \<Rightarrow> bool list \<Rightarrow> point \<Rightarrow> int \<Rightarrow> int \<Rightarrow> int \<Rightarrow> scan_state \<Rightarrow> scan_state" where
  "ring_search env usd cp gx gy searchRadius s =
     (if \<not> found s \<and> searchRadius < max (t_gridWidth env) (t_gridHeight env) then
        ring_search env usd cp gx gy (searchRadius + 1) (scan_ring env usd cp gx gy searchRadius s)
      else s)"
  by pat_completeness auto
termination
  by (relation "measure (\<lambda>(env, usd, cp, gx, gy, sr, s). nat (max (t_gridWidth env) (t_gridHeight env) - sr))") auto

declare ring_search.simps [simp del]

definition nearest :: "tsp_env \<Rightarrow> bool list \<Rightarrow> nat \<Rightarrow> int" where
  "nearest env usd cur =
     (let cp = t_points env ! cur;
          gx = \<lfloor>px cp / tsp_cellSize\<rfloor>;
          gy = \<lfloor>py cp / tsp_cellSize\<rfloor>
      in nearestIdx (ring_search env usd cp gx gy 0
                       \<lparr>nearestIdx = - 1, minDistSq = Infinity, found = False\<rparr>))"

function tsp_loop :: "tsp_env \<Rightarrow> tsp_state \<Rightarrow> tsp_state promise" where
  "tsp_loop env st =
     (if remaining st > 0 then
        (if remaining st mod 1000 = 0 \<and> t_signal env (remaining st) = CancelRequested
         then Rejected (Error ''Cancelled by user'')
         else if remaining st mod 1000 = 0 \<and> t_signal env (remaining st) = PausedForever
         then Pending
         else
           let nearestIdx = nearest env (used st) (currentIdx st)
           in if nearestIdx \<noteq> - 1 then
                tsp_loop env
                  (st\<lparr>orderedPoints := orderedPoints st @ [t_points env ! nat nearestIdx],
                      used := (used st)[nat nearestIdx := True],
                      currentIdx := nat nearestIdx,
                      remaining := remaining st - 1\<rparr>)
              else Fulfilled st)
      else Fulfilled st)"
  by pat_completeness auto
termination
  by (relation "measure (\<lambda>(env, st). remaining st)") auto

declare tsp_loop.simps [simp del]

definition tourBuilder :: "(nat \<Rightarrow> signal) \<Rightarrow> nat \<Rightarrow> nat \<Rightarrow> point list \<Rightarrow> point list list promise" where
  "tourBuilder sig width height pts =
     (if length pts < 2 then Fulfilled []
      else
        let gridWidth = \<lceil>real width / tsp_cellSize\<rceil>;
            gridHeight = \<lceil>real height / tsp_cellSize\<rceil>
        in case build_grid pts gridWidth gridHeight of
             Inl e \<Rightarrow> Rejected e
           | Inr g \<Rightarrow>
               (case tsp_loop \<lparr>t_points = pts, t_grid = g, t_gridWidth = gridWidth,
                                t_gridHeight = gridHeight, t_signal = sig\<rparr>
                       \<lparr>currentIdx = 0, orderedPoints = [pts ! 0],
                        used = (replicate (length pts) False)[0 := True],
                        remaining = length pts - 1\<rparr> of
                  Fulfilled st \<Rightarrow> Fulfilled [orderedPoints st]
                | Rejected e \<Rightarrow> Rejected e
                | Pending \<Rightarrow> Pending))"

subsection \<open>Invariants of the tour builder\<close>

text \<open>
  \<open>in_image\<close> says that a point lies inside the image, as every point of the sampler does
  (line 652 of the sampler admits only such candidates). \<open>grid_ok\<close> says that the grid
  files every point index in the cell of its point, \<open>scan_ok\<close> that the search state holds
  either no point or an unused one, \<open>built\<close> describes the grid after the first \<open>n\<close> points
  have been filed, and \<open>tour_inv\<close> relates the tour built so far to the list of the indices
  it has visited.
\<close>

definition in_image :: "nat \<Rightarrow> nat \<Rightarrow> point \<Rightarrow> bool" where
  "in_image width height p = (0 \<le> px p \<and> px p < real width \<and> 0 \<le> py p \<and> py p < real height)"

definition tsp_cell :: "int \<Rightarrow> point \<Rightarrow> int" where
  "tsp_cell gw p = \<lfloor>py p / tsp_cellSize\<rfloor> * gw + \<lfloor>px p / tsp_cellSize\<rfloor>"

definition grid_ok :: "tsp_env \<Rightarrow> bool" where
  "grid_ok env =
     (length (t_grid env) = nat (t_gridWidth env * t_gridHeight env) \<and>
      list_all (list_all (\<lambda>i. i < length (t_points env))) (t_grid env) \<and>
      list_all (\<lambda>i. i \<in> set (t_grid env ! nat (tsp_cell (t_gridWidth env) (t_points env ! i))))
        [0..<length (t_points env)])"

definition scan_ok :: "tsp_env \<Rightarrow> bool list \<Rightarrow> scan_state \<Rightarrow> bool" where
  "scan_ok env usd s =
     ((found s = (nearestIdx s \<noteq> - 1)) \<and>
      (found s \<or> minDistSq s = Infinity) \<and>
      (nearestIdx s = - 1 \<or>
         (0 \<le> nearestIdx s \<and> nat (nearestIdx s) < length (t_points env) \<and> usd ! nat (nearestIdx s) = False)))"

definition built :: "point list \<Rightarrow> int \<Rightarrow> nat \<Rightarrow> nat \<Rightarrow> nat list list \<Rightarrow> bool" where
  "built pts gw N k cells =
     (length cells = N \<and> list_all (list_all (\<lambda>i. i < k)) cells \<and>
      list_all (\<lambda>i. i \<in> set (cells ! nat (tsp_cell gw (pts ! i)))) [0..<k])"

definition tour_inv :: "tsp_env \<Rightarrow> tsp_state \<Rightarrow> nat list \<Rightarrow> bool" where
  "tour_inv env st order =
     (orderedPoints st = map ((!) (t_points env)) order \<and> distinct order \<and>
      set order = {i. i < length (t_points env) \<and> used st ! i} \<and>
      length (used st) = length (t_points env) \<and>
      remaining st + length order = length (t_points env) \<and>
      currentIdx st < length (t_points env))"

section \<open>The job handlers and their dispatch (worker.js, lines 46-62, 91-126, 149-153, 305-313, 715-727, 802-808)\<close>

text \<open>
  Every handler is an \<open>async\<close> function: it returns a promise, an exception thrown in its
  body rejects that promise, and since no handler has a \<open>return\<close> with a value the promise
  of a handler that finishes is fulfilled with \<open>undefined\<close>. A handler is modelled by the
  terminal events it posts (\<open>postResult\<close>, \<open>postError\<close>; progress events are left out)
  together with the state of its promise.

  Each handler body declares \<open>const performance = {...}\<close> near its end. The declaration
  is hoisted to the top of the body: from the entry of the body on, the identifier
  \<open>performance\<close> names this binding and not the global timer, and the binding stays
  uninitialised until the declaration has been evaluated. \<open>performance_now\<close> is the
  evaluation of \<open>performance.now()\<close> against the binding's state: reading an uninitialised
  binding throws a \<open>ReferenceError\<close>, and an initialised one holds an object without a
  \<open>now\<close> method. The solver, the sampler and the tour builder modelled in the sections
  above are the bodies of their handlers between the two timing calls.
\<close>

datatype 'a binding = Uninitialized | Initialized 'a

datatype 'a js_value = Undefined | Object 'a

datatype payload =
    Solution "num list"
  | Contours "point list list"
  | Raw "(real \<times> line list) list"

datatype event =
    result_event string payload
  | error_event string string

record job_params =
  p_grayData :: "real list"
  p_width :: nat
  p_height :: nat
  p_threshold :: real

record job_options =
  o_interval :: "real option"
  o_threshold :: "real option"

fun message_of :: "js_error \<Rightarrow> string" where
  "message_of (TypeError m) = m"
| "message_of (ReferenceError m) = m"
| "message_of (Error m) = m"

definition performance_now :: "real binding \<Rightarrow> js_error + real" where
  "performance_now b =
     (case b of
        Uninitialized \<Rightarrow> Inl (ReferenceError ''Cannot access performance before initialization'')
      | Initialized obj \<Rightarrow> Inl (TypeError ''performance.now is not a function''))"

text \<open>
  \<open>destructure\<close> is \<open>const { ... } = v\<close>: it throws a \<open>TypeError\<close> when \<open>v\<close> is
  \<open>undefined\<close> (\<open>None\<close>).
\<close>

definition destructure :: "'a option \<Rightarrow> js_error + 'a" where
  "destructure v =
     (case v of
        None \<Rightarrow> Inl (TypeError ''Cannot destructure property of undefined'')
      | Some obj \<Rightarrow> Inr obj)"

text \<open>
  The part every handler shares: \<open>const t0 = performance.now()\<close>, the body, given by the
  promise of its result, \<open>const t1 = performance.now()\<close>, the declaration of
  \<open>performance\<close>, and \<open>postResult\<close>. The binding is threaded through explicitly; the two
  timing calls read it before the declaration initialises it.
\<close>

definition timed :: "string \<Rightarrow> payload promise \<Rightarrow> event list \<times> payload js_value promise" where
  "timed taskId body =
     (let performance = Uninitialized
      in case performance_now performance of
           Inl e \<Rightarrow> ([], Rejected e)
         | Inr t0 \<Rightarrow>
             (case body of
                Rejected e \<Rightarrow> ([], Rejected e)
              | Pending \<Rightarrow> ([], Pending)
              | Fulfilled data \<Rightarrow>
                  (case performance_now performance of
                     Inl e \<Rightarrow> ([], Rejected e)
                   | Inr t1 \<Rightarrow>
                       (let performance = Initialized (t1 - t0)
                        in ([result_event taskId data], Fulfilled Undefined)))))"

text \<open>
  A handler first destructures \<open>params\<close> and \<open>options\<close> and then runs the timed part.
\<close>

definition with_arguments ::
  "'p option \<Rightarrow> 'o option \<Rightarrow> ('p \<Rightarrow> 'o \<Rightarrow> event list \<times> payload js_value promise)
     \<Rightarrow> event list \<times> payload js_value promise" where
  "with_arguments params options run =
     (case destructure params of
        Inl e \<Rightarrow> ([], Rejected e)
      | Inr p \<Rightarrow>
          (case destructure options of
             Inl e \<Rightarrow> ([], Rejected e)
           | Inr opt \<Rightarrow> run p opt))"

definition settle :: "('a \<Rightarrow> payload) \<Rightarrow> 'a promise \<Rightarrow> payload promise" where
  "settle wrap p =
     (case p of Fulfilled r \<Rightarrow> Fulfilled (wrap r) | Rejected e \<Rightarrow> Rejected e | Pending \<Rightarrow> Pending)"

definition handleSolveEikonalCPU ::
  "(nat \<Rightarrow> signal) \<Rightarrow> string \<Rightarrow> job_params option \<Rightarrow> job_options option
     \<Rightarrow> event list \<times> payload js_value promise" where
  "handleSolveEikonalCPU sig taskId params options =
     with_arguments params options (\<lambda>p opt.
       timed taskId
         (settle (\<lambda>r. Solution (fst r))
            (solveEikonal sig (p_grayData p) (p_width p) (p_height p) (p_threshold p))))"

text \<open>
  The bodies of the contour, streamline and hatch handlers between their two timing
  calls are not modelled in full; the handlers take the promise of the body's result as a
  parameter.
\<close>

definition handleExtractContoursAdaptive ::
  "payload promise \<Rightarrow> string \<Rightarrow> 'p option \<Rightarrow> 'o option \<Rightarrow> event list \<times> payload js_value promise" where
  "handleExtractContoursAdaptive body taskId params options =
     with_arguments params options (\<lambda>p opt. timed taskId body)"

definition handleExtractStreamlines ::
  "payload promise \<Rightarrow> string \<Rightarrow> 'p option \<Rightarrow> 'o option \<Rightarrow> event list \<times> payload js_value promise" where
  "handleExtractStreamlines body taskId params options =
     with_arguments params options (\<lambda>p opt. timed taskId body)"

definition handleExtractHatch ::
  "payload promise \<Rightarrow> string \<Rightarrow> 'p option \<Rightarrow> 'o option \<Rightarrow> event list \<times> payload js_value promise" where
  "handleExtractHatch body taskId params options =
     with_arguments params options (\<lambda>p opt. timed taskId body)"

definition stipple_env_of :: "(nat \<Rightarrow> real) \<Rightarrow> (nat \<Rightarrow> signal) \<Rightarrow> job_params \<Rightarrow> job_options \<Rightarrow> stipple_env" where
  "stipple_env_of rnd sig p opt =
     \<lparr>s_grayData = p_grayData p, s_width = p_width p, s_height = p_height p,
      s_interval = (case o_interval opt of None \<Rightarrow> 8 | Some i \<Rightarrow> i),
      s_threshold = (case o_threshold opt of None \<Rightarrow> 1/2 | Some t \<Rightarrow> t),
      random = rnd, s_signal = sig\<rparr>"

definition dotPaths :: "point list \<Rightarrow> point list list" where
  "dotPaths pts = map (\<lambda>p. [\<lparr>px = px p, py = py p\<rparr>, \<lparr>px = px p + 1/10, py = py p + 1/10\<rparr>]) pts"

definition handleExtractStipple ::
  "(nat \<Rightarrow> real) \<Rightarrow> (nat \<Rightarrow> signal) \<Rightarrow> string \<Rightarrow> job_params option \<Rightarrow> job_options option
     \<Rightarrow> event list \<times> payload js_value promise" where
  "handleExtractStipple rnd sig taskId params options =
     with_arguments params options (\<lambda>p opt.
       timed taskId
         (settle (\<lambda>pts. Contours (dotPaths pts)) (extractStipple (stipple_env_of rnd sig p opt))))"

text \<open>
  The tour handler starts the stipple handler under its own task id and waits for
  \<open>new Promise(resolve => { handleExtractStipple(...).then(result => resolve(result.data)) })\<close>.
  The \<open>then\<close> has a fulfilment callback only. When the stipple promise is rejected, the
  callback does not run; when it is fulfilled with \<open>undefined\<close>, \<open>result.data\<close> throws
  inside the callback, before \<open>resolve\<close> is reached. In both cases only the promise that
  \<open>then\<close> returns is rejected, which nothing observes, and the awaited promise stays
  pending. \<open>spread\<close> is \<open>{ ...options, showProgress: false }\<close>, an object also when
  \<open>options\<close> is \<open>undefined\<close>.
\<close>

definition resolve_with_data :: "'a js_value promise \<Rightarrow> 'a promise" where
  "resolve_with_data p =
     (case p of
        Fulfilled result \<Rightarrow> (case result of Object data \<Rightarrow> Fulfilled data | Undefined \<Rightarrow> Pending)
      | Rejected e \<Rightarrow> Pending
      | Pending \<Rightarrow> Pending)"

definition spread :: "job_options option \<Rightarrow> job_options" where
  "spread options =
     (case options of None \<Rightarrow> \<lparr>o_interval = None, o_threshold = None\<rparr> | Some opt \<Rightarrow> opt)"

definition first_points :: "payload \<Rightarrow> js_error + point list" where
  "first_points stippleResult =
     (case stippleResult of
        Contours paths \<Rightarrow>
          (if list_all (\<lambda>p. p \<noteq> []) paths then Inr (map hd paths)
           else Inl (TypeError ''Cannot read properties of undefined''))
      | Solution s \<Rightarrow> Inl (TypeError ''Cannot read properties of undefined'')
      | Raw r \<Rightarrow> Inl (TypeError ''Cannot read properties of undefined''))"

definition handleExtractTSP ::
  "(nat \<Rightarrow> real) \<Rightarrow> (nat \<Rightarrow> signal) \<Rightarrow> string \<Rightarrow> job_params option \<Rightarrow> job_options option
     \<Rightarrow> event list \<times> payload js_value promise" where
  "handleExtractTSP rnd sig taskId params options =
     (let started = handleExtractStipple rnd sig taskId params (Some (spread options))
      in case resolve_with_data (snd started) of
           Rejected e \<Rightarrow> (fst started, Rejected e)
         | Pending \<Rightarrow> (fst started, Pending)
         | Fulfilled stippleResult \<Rightarrow>
             (case first_points stippleResult of
                Inl e \<Rightarrow> (fst started, Rejected e)
              | Inr pts \<Rightarrow>
                  if length pts < 2
                  then (fst started @ [result_event taskId (Contours [])], Fulfilled Undefined)
                  else
                    (let finished =
                       timed taskId
                         (case destructure options of
                            Inl e \<Rightarrow> Rejected e
                          | Inr opt \<Rightarrow>
                              (case destructure params of
                                 Inl e \<Rightarrow> Rejected e
                               | Inr p \<Rightarrow> settle Contours (tourBuilder sig (p_width p) (p_height p) pts)))
                     in (fst started @ fst finished, snd finished))))"

text \<open>
  \<open>executeTask\<close> (lines 91-126) awaits the handler of the method inside \<open>try\<close>; a
  rejection is caught and posted as an error event, an unknown method is posted as an
  error at once, and a handler whose promise stays pending keeps \<open>executeTask\<close> waiting.
  The three unmodelled bodies are parameters.
\<close>

definition await_catch :: "string \<Rightarrow> event list \<times> 'a promise \<Rightarrow> event list \<times> unit promise" where
  "await_catch taskId r =
     (case snd r of
        Fulfilled v \<Rightarrow> (fst r, Fulfilled ())
      | Rejected e \<Rightarrow> (fst r @ [error_event taskId (message_of e)], Fulfilled ())
      | Pending \<Rightarrow> (fst r, Pending))"

definition executeTask ::
  "payload promise \<Rightarrow> payload promise \<Rightarrow> payload promise \<Rightarrow> (nat \<Rightarrow> real) \<Rightarrow> (nat \<Rightarrow> signal)
     \<Rightarrow> string \<Rightarrow> string \<Rightarrow> job_params option \<Rightarrow> job_options option \<Rightarrow> event list \<times> unit promise" where
  "executeTask contours streamlines hatch rnd sig taskId method params options =
     (if method = ''solveEikonalCPU'' then
        await_catch taskId (handleSolveEikonalCPU sig taskId params options)
      else if method = ''extractContoursAdaptive'' then
        await_catch taskId (handleExtractContoursAdaptive contours taskId params options)
      else if method = ''extractStreamlines'' then
        await_catch taskId (handleExtractStreamlines streamlines taskId params options)
      else if method = ''extractStipple'' then
        await_catch taskId (handleExtractStipple rnd sig taskId params options)
      else if method = ''extractTSP'' then
        await_catch taskId (handleExtractTSP rnd sig taskId params options)
      else if method = ''extractHatch'' then
        await_catch taskId (handleExtractHatch hatch taskId params options)
      else ([error_event taskId (''Unknown method: '' @ method)], Fulfilled ()))"

section \<open>The worker pool (worker-pool.js)\<close>

text \<open>
  The pool keeps its workers in an array and its running tasks in a \<open>Map\<close> from task id
  to a task object; each task object holds a reference to the worker object that runs it.
  Worker objects are shared between the array and the tasks, so they live in an explicit
  store addressed by reference. A worker's \<open>postMessage\<close> only queues the message: the
  worker-side flags change when the worker's own \<open>onmessage\<close> runs, never inside a pool
  operation.
\<close>

type_synonym task_id = string
type_synonym worker_ref = nat

datatype message =
    ExecuteMsg task_id string
  | CancelMsg task_id
  | PauseMsg task_id
  | ResumeMsg task_id

record worker =
  taskCount :: int
  inbox :: "message list"
  isCancelled :: bool
  checkpoints :: nat

record task =
  taskId :: task_id
  task_method :: string
  task_worker :: worker_ref

record pool =
  maxWorkers :: nat
  workers :: "worker_ref list"
  store :: "worker_ref \<Rightarrow> worker"
  activeTasks :: "task_id \<rightharpoonup> task"
  taskIdCounter :: nat
  initialized :: bool

definition postMessage :: "pool \<Rightarrow> worker_ref \<Rightarrow> message \<Rightarrow> pool" where
  "postMessage p w m =
     p\<lparr>store := (store p)(w := (store p w)\<lparr>inbox := inbox (store p w) @ [m]\<rparr>)\<rparr>"

text \<open>
  \<open>cancelTask(taskId)\<close>, lines 180-193: look the task up, return when it is absent,
  else post the cancel signal to its worker, delete the entry, and decrement the
  worker's count. The function has no \<open>await\<close>, so it runs to its end in the call.
\<close>

definition cancelTask :: "pool \<Rightarrow> task_id \<Rightarrow> pool" where
  "cancelTask p tid =
     (case activeTasks p tid of
        None \<Rightarrow> p
      | Some t \<Rightarrow>
          let w = task_worker t;
              p1 = postMessage p w (CancelMsg tid);
              p2 = p1\<lparr>activeTasks := (activeTasks p1)(tid := None)\<rparr>
          in p2\<lparr>store := (store p2)(w := (store p2 w)\<lparr>taskCount := taskCount (store p2 w) - 1\<rparr>)\<rparr>)"

text \<open>
  The bookkeeping of \<open>execute\<close>, lines 98-138, once a worker has been chosen: the id is
  built from the incremented counter, the task is entered in the table, the worker's
  count goes up and the task is posted to it. The decimal rendering of the counter is
  a parameter.
\<close>

definition execute_on :: "(nat \<Rightarrow> string) \<Rightarrow> pool \<Rightarrow> worker_ref \<Rightarrow> string \<Rightarrow> pool \<times> task_id" where
  "execute_on render p w m =
     (let n = taskIdCounter p + 1;
          tid = ''task_'' @ render n;
          p1 = p\<lparr>taskIdCounter := n\<rparr>;
          t = \<lparr>taskId = tid, task_method = m, task_worker = w\<rparr>;
          p2 = p1\<lparr>activeTasks := (activeTasks p1)(tid \<mapsto> t)\<rparr>;
          p3 = p2\<lparr>store := (store p2)(w := (store p2 w)\<lparr>taskCount := taskCount (store p2 w) + 1\<rparr>)\<rparr>
      in (postMessage p3 w (ExecuteMsg tid m), tid))"

definition fresh_worker :: worker where
  "fresh_worker = \<lparr>taskCount = 0, inbox = [], isCancelled = False, checkpoints = 0\<rparr>"

definition one_worker_pool :: pool where
  "one_worker_pool =
     \<lparr>maxWorkers = 1, workers = [0], store = (\<lambda>_. fresh_worker),
      activeTasks = Map.empty, taskIdCounter = 0, initialized = True\<rparr>"

section \<open>Concrete inputs and auxiliary predicates\<close>

text \<open>
  \<open>zeroed\<close> is what the initialisation establishes at a seed cell. The fields below are
  small inputs on which the definitions are run: a row of three cells with two seeds, and a
  row of eight cells with seeds at both ends, whose cell of index 4 is first reached from
  the left, through two cells of cost 1/5 and 3/10, and later from the right.
\<close>

definition zeroed :: "fmm_state \<Rightarrow> int \<Rightarrow> bool" where
  "zeroed st i = (visited st i \<and> solution st i = Fin 0)"

definition two_seeds_row :: "real list" where
  "two_seeds_row = [0, 0, 1]"

definition two_fronts_row :: "real list" where
  "two_fronts_row = [0, 0, 1/5, 3/10, 1/2, 2/5, 0, 0]"

text \<open>
  A 2 by 2 field with one corner above the others, and a 3 by 3 field whose top row and
  left middle cell are seeds.
\<close>

definition one_high_corner :: contour_env where
  "one_high_corner =
     \<lparr>c_solution = [Fin 0, Fin 0, Fin 0, Fin 1], c_width = 2, c_height = 2,
      edgeGuidance = False, edgeSensitivity = 0, edgeMap = None\<rparr>"

definition corner_field :: "real list" where
  "corner_field = [0, 0, 0, 0, 1, 1, 1, 1, 1]"

text \<open>
  An image of 5 by 1 dark pixels sampled with the interval 8, under a given sequence of
  random draws. \<open>crowding_draws\<close> places a seed, a point 3/2 to its right and then,
  from that point, a point 2 to the left. \<open>alternating_draws\<close> places the seed and then
  keeps throwing from the seed, by 3/2 to the right and to the left in turn.
  \<open>cell_of\<close> is the grid cell \<open>insertPoint\<close> files a point under; \<open>strip_inv j\<close>
  describes the sampler's state after \<open>j\<close> passes under \<open>alternating_draws\<close>.
\<close>

definition dark_strip :: "(nat \<Rightarrow> real) \<Rightarrow> stipple_env" where
  "dark_strip rnd =
     \<lparr>s_grayData = [0, 0, 0, 0, 0], s_width = 5, s_height = 1, s_interval = 8,
      s_threshold = 1/2, random = rnd, s_signal = (\<lambda>_. Proceed)\<rparr>"

definition crowding_draws :: "nat \<Rightarrow> real" where
  "crowding_draws n = (if n < 8 then [1/2, 1/2, 0, 0, 0, 1/2, 1/2, 1/3] ! n else 0)"

definition strip_start :: stipple_state where
  "strip_start = \<lparr>points = [\<lparr>px = 5/2, py = 1/2\<rparr>], grid = (\<lambda>_. - 1)(0 := 0), active = [0],
                   drawn = 2, passes = 0\<rparr>"

definition cell_of :: "stipple_env \<Rightarrow> point \<Rightarrow> int \<times> int" where
  "cell_of env p = (\<lfloor>px p / cellSize env\<rfloor>, \<lfloor>py p / cellSize env\<rfloor>)"

definition alternating_draws :: "nat \<Rightarrow> real" where
  "alternating_draws n =
     (if n < 2 then 1/2 else if (n - 2) mod 3 = 1 \<and> odd ((n - 2) div 3) then 1/2 else 0)"

definition strip_inv :: "nat \<Rightarrow> stipple_state \<Rightarrow> bool" where
  "strip_inv j st =
     (length (points st) = j + 1 \<and> points st ! 0 = \<lparr>px = 5/2, py = 1/2\<rparr> \<and>
      points st ! j = (if j = 0 then \<lparr>px = 5/2, py = 1/2\<rparr>
                       else if odd j then \<lparr>px = 4, py = 1/2\<rparr> else \<lparr>px = 1, py = 1/2\<rparr>) \<and>
      grid st 0 = int j \<and> active st \<noteq> [] \<and> active st ! 0 = 0 \<and>
      drawn st = 2 + 3 * j \<and> passes st = j)"

definition crowded_1 :: stipple_state where
  "crowded_1 = \<lparr>points = [\<lparr>px = 5/2, py = 1/2\<rparr>, \<lparr>px = 4, py = 1/2\<rparr>],
                 grid = (\<lambda>_. - 1)(0 := 1), active = [0, 1], drawn = 5, passes = 1\<rparr>"

definition crowded_2 :: stipple_state where
  "crowded_2 = \<lparr>points = [\<lparr>px = 5/2, py = 1/2\<rparr>, \<lparr>px = 4, py = 1/2\<rparr>, \<lparr>px = 2, py = 1/2\<rparr>],
                 grid = (\<lambda>_. - 1)(0 := 2), active = [0, 1, 2], drawn = 8, passes = 2\<rparr>"

definition three_dots :: "point list" where
  "three_dots = [\<lparr>px = 1, py = 1\<rparr>, \<lparr>px = 8, py = 8\<rparr>, \<lparr>px = 2, py = 2\<rparr>]"

section \<open>Properties of the solver\<close>

subsection \<open>Seed cells keep distance 0\<close>

lemma relax_solution_visited: "visited st i \<Longrightarrow> solution (relax f w h x y nb st) i = solution st i"
  by (auto simp: relax_def Let_def split: option.splits)

lemma fold_relax_solution_visited:
  "visited st i \<Longrightarrow> solution (fold (relax f w h x y) nbs st) i = solution st i"
  by (induction nbs arbitrary: st) (auto simp: relax_solution_visited)

lemma fmm_step_visited: "visited st i \<Longrightarrow> visited (fmm_step f w h st) i"
  by (auto simp: fmm_step_def Let_def split: prod.splits option.splits simp del: fold_simps)

lemma fmm_step_solution_visited: "visited st i \<Longrightarrow> solution (fmm_step f w h st) i = solution st i"
  by (auto simp: fmm_step_def Let_def relax_solution_visited split: prod.splits option.splits)

lemma fmm_loop_solution_visited:
  "fmm_loop env f w h st = Fulfilled st' \<Longrightarrow> visited st i \<Longrightarrow> solution st' i = solution st i"
proof (induction env f w h st rule: fmm_loop.induct)
  case (1 env f width height st)
  show ?case
  proof (cases "length (heap st) > 0")
    case False
    with 1(3) have "st' = st" by (simp add: fmm_loop.simps)
    then show ?thesis by simp
  next
    case True
    let ?s = "fmm_step f width height st"
    have v: "visited ?s i" using 1(4) by (rule fmm_step_visited)
    have rec: "fmm_loop env f width height ?s = Fulfilled st'"
      using 1(3) True by (subst (asm) fmm_loop.simps) (auto simp: Let_def split: if_splits signal.splits)
    have "solution st' i = solution ?s i"
    proof (cases "processed ?s mod batchSize = 0")
      case True
      with rec 1(3) \<open>length (heap st) > 0\<close> have "env (processed ?s) = Proceed"
        by (subst (asm) (2) fmm_loop.simps) (auto simp: Let_def split: signal.splits)
      from 1(1)[OF \<open>length (heap st) > 0\<close> refl True this rec v] show ?thesis .
    next
      case False
      from 1(2)[OF \<open>length (heap st) > 0\<close> refl False rec v] show ?thesis .
    qed
    then show ?thesis using fmm_step_solution_visited[OF 1(4)] by simp
  qed
qed

lemma fmm_loop_returns:
  "\<forall>n. env n = Proceed \<Longrightarrow> \<exists>st'. fmm_loop env f w h st = Fulfilled st'"
proof (induction env f w h st rule: fmm_loop.induct)
  case (1 env f width height st)
  show ?case
  proof (cases "length (heap st) > 0")
    case False
    then show ?thesis by (simp add: fmm_loop.simps)
  next
    case True
    let ?s = "fmm_step f width height st"
    have "\<exists>st'. fmm_loop env f width height ?s = Fulfilled st'"
    proof (cases "processed ?s mod batchSize = 0")
      case True
      from 1(3) have e: "env (processed ?s) = Proceed" by simp
      from 1(1)[OF \<open>length (heap st) > 0\<close> refl True e 1(3)] show ?thesis .
    next
      case False
      from 1(2)[OF \<open>length (heap st) > 0\<close> refl False 1(3)] show ?thesis .
    qed
    then show ?thesis using True 1(3) by (subst fmm_loop.simps) (auto simp: Let_def)
  qed
qed

lemma init_cell_zeroed: "zeroed st i \<Longrightarrow> zeroed (init_cell g w t y x st) i"
  by (auto simp: init_cell_def zeroed_def Let_def)

lemma init_cell_seed: "is_seed g t (idx w (int x) (int y)) \<Longrightarrow> zeroed (init_cell g w t y x st) (idx w (int x) (int y))"
  by (auto simp: init_cell_def zeroed_def Let_def)

lemma fold_init_cell_zeroed: "zeroed st i \<Longrightarrow> zeroed (fold (init_cell g w t y) xs st) i"
  by (induction xs arbitrary: st) (auto simp: init_cell_zeroed)

lemma fold_init_cell_seed:
  "x \<in> set xs \<Longrightarrow> is_seed g t (idx w (int x) (int y)) \<Longrightarrow> zeroed (fold (init_cell g w t y) xs st) (idx w (int x) (int y))"
  by (induction xs arbitrary: st) (auto simp: init_cell_seed fold_init_cell_zeroed)

lemma fold_rows_zeroed: "zeroed st i \<Longrightarrow> zeroed (fold (\<lambda>y. fold (init_cell g w t y) xs) ys st) i"
  by (induction ys arbitrary: st) (auto simp: fold_init_cell_zeroed)

lemma fold_rows_seed:
  "y \<in> set ys \<Longrightarrow> x \<in> set xs \<Longrightarrow> is_seed g t (idx w (int x) (int y)) \<Longrightarrow>
   zeroed (fold (\<lambda>y. fold (init_cell g w t y) xs) ys st) (idx w (int x) (int y))"
  by (induction ys arbitrary: st) (auto simp: fold_init_cell_seed fold_rows_zeroed)

lemma init_state_seed:
  "x < w \<Longrightarrow> y < h \<Longrightarrow> is_seed g t (idx w (int x) (int y)) \<Longrightarrow>
   zeroed (init_state g w h t) (idx w (int x) (int y))"
  unfolding init_state_def by (rule fold_rows_seed) auto

lemma cell_index_lt: "x < w \<Longrightarrow> y < h \<Longrightarrow> y * w + x < w * (h::nat)"
proof -
  assume a: "x < w" "y < h"
  then have "y * w + x < (y + 1) * w" by simp
  also have "\<dots> \<le> h * w" using a by (intro mult_le_mono1) simp
  finally show ?thesis by (simp add: mult.commute)
qed

lemmas step_defs = init_state_def init_cell_def is_seed_def gray_at_def idx_def
  fmm_step_def heapPop_def heapPush_def sift_up.simps sift_down.simps smallest_of_def
  relax_def newValue_def upwind_def safeGet_def Math_min_def Let_def

lemma fmm_loop_unroll:
  "heap st \<noteq> [] \<Longrightarrow> processed (fmm_step f w h st) mod batchSize \<noteq> 0 \<Longrightarrow>
   fmm_loop env f w h st = fmm_loop env f w h (fmm_step f w h st)"
  by (subst fmm_loop.simps) (simp add: Let_def)

lemma fmm_loop_done: "heap st = [] \<Longrightarrow> fmm_loop env f w h st = Fulfilled st"
  by (subst fmm_loop.simps) simp

lemma two_seeds_row_run:
  "solveEikonal (\<lambda>_. Proceed) two_seeds_row 3 1 (1/2) = Fulfilled ([Fin 0, Fin 0, Fin 1], 3)"
proof -
  let ?f = "two_seeds_row"
  let ?s0 = "init_state ?f 3 1 (1/2)"
  let ?s1 = "fmm_step ?f 3 1 ?s0"
  let ?s2 = "fmm_step ?f 3 1 ?s1"
  let ?s3 = "fmm_step ?f 3 1 ?s2"
  have s0: "?s0 = \<lparr>solution = (\<lambda>_. Infinity)(0 := Fin 0, 1 := Fin 0),
        visited = (\<lambda>_. False)(0 := True, 1 := True),
        heap = [\<lparr>item_x = 0, item_y = 0, item_value = 0\<rparr>, \<lparr>item_x = 1, item_y = 0, item_value = 0\<rparr>],
        processed = 0\<rparr>"
    by (simp add: two_seeds_row_def step_defs upt_rec)
  have h1: "heap ?s1 = [\<lparr>item_x = 1, item_y = 0, item_value = 0\<rparr>]" "processed ?s1 = 1"
    unfolding s0 by (simp_all add: two_seeds_row_def step_defs)
  have h2: "heap ?s2 = [\<lparr>item_x = 2, item_y = 0, item_value = 1\<rparr>]" "processed ?s2 = 2"
    unfolding s0 by (simp_all add: two_seeds_row_def step_defs)
  have h3: "heap ?s3 = []" "processed ?s3 = 3"
    "map (\<lambda>i. solution ?s3 (int i)) [0..<3 * 1] = [Fin 0, Fin 0, Fin 1]"
    unfolding s0 by (simp_all add: two_seeds_row_def step_defs upt_rec)
  have "fmm_loop (\<lambda>_. Proceed) ?f 3 1 ?s0 = fmm_loop (\<lambda>_. Proceed) ?f 3 1 ?s1"
    by (rule fmm_loop_unroll) (use s0 h1 in \<open>simp_all add: batchSize_def\<close>)
  also have "\<dots> = fmm_loop (\<lambda>_. Proceed) ?f 3 1 ?s2"
    by (rule fmm_loop_unroll) (use h1 h2 in \<open>simp_all add: batchSize_def\<close>)
  also have "\<dots> = fmm_loop (\<lambda>_. Proceed) ?f 3 1 ?s3"
    by (rule fmm_loop_unroll) (use h2 h3 in \<open>simp_all add: batchSize_def\<close>)
  also have "\<dots> = Fulfilled ?s3"
    by (rule fmm_loop_done) (use h3 in simp)
  finally show ?thesis
    unfolding solveEikonal_def using h3 by simp
qed

text \<open>
  C2. With no cancellation and no pause the solver returns a field, and in every field it
  returns, under any signals, each cell of the grid whose gray value is below the
  threshold holds exactly 0: the initialisation writes 0 there and marks the cell visited,
  and line 242 skips visited cells, so line 285 never writes to it. (The handler that
  wraps the solver is a separate matter, see the section on the job handlers.)
\<close>

theorem seeds_have_distance_zero:
  "(\<exists>sol n. solveEikonal (\<lambda>_. Proceed) grayData width height threshold = Fulfilled (sol, n))
   \<and> (\<forall>env sol n x y.
        solveEikonal env grayData width height threshold = Fulfilled (sol, n) \<longrightarrow>
        x < width \<longrightarrow> y < height \<longrightarrow> y * width + x < length grayData \<longrightarrow>
        grayData ! (y * width + x) < threshold \<longrightarrow>
        length sol = width * height \<and> sol ! (y * width + x) = Fin 0)"
proof (intro conjI allI impI)
  from fmm_loop_returns[of "\<lambda>_. Proceed" grayData width height "init_state grayData width height threshold"]
  show "\<exists>sol n. solveEikonal (\<lambda>_. Proceed) grayData width height threshold = Fulfilled (sol, n)"
    by (auto simp: solveEikonal_def)
next
  fix env sol n x y
  assume run: "solveEikonal env grayData width height threshold = Fulfilled (sol, n)"
    and xy: "x < width" "y < height"
    and len: "y * width + x < length grayData"
    and dark: "grayData ! (y * width + x) < threshold"
  from run obtain st where
    loop: "fmm_loop env grayData width height (init_state grayData width height threshold) = Fulfilled st"
    and sol: "sol = map (\<lambda>i. solution st (int i)) [0..<width * height]"
    by (auto simp: solveEikonal_def split: promise.splits)
  show "length sol = width * height" using sol by simp
  have i: "idx width (int x) (int y) = int (y * width + x)" by (simp add: idx_def)
  have "is_seed grayData threshold (int (y * width + x))"
    using len dark by (simp add: is_seed_def gray_at_def del: of_nat_add of_nat_mult)
  then have "is_seed grayData threshold (idx width (int x) (int y))"
    by (simp only: i)
  from init_state_seed[OF xy this]
  have z: "zeroed (init_state grayData width height threshold) (int (y * width + x))"
    by (simp add: i)
  then have "solution st (int (y * width + x)) = Fin 0"
    using fmm_loop_solution_visited[OF loop] by (simp add: zeroed_def)
  then show "sol ! (y * width + x) = Fin 0"
    using sol cell_index_lt[OF xy] by simp
qed

theorem seeds_have_distance_zero_witness:
  "solveEikonal (\<lambda>_. Proceed) two_seeds_row 3 1 (1/2) = Fulfilled ([Fin 0, Fin 0, Fin 1], 3)
   \<and> (1::nat) < 3 \<and> (0::nat) < 1 \<and> 0 * 3 + 1 < length two_seeds_row
   \<and> two_seeds_row ! (0 * 3 + 1) < 1/2
   \<and> [Fin 0, Fin 0, Fin 1] ! (0 * 3 + 1) = Fin 0"
proof -
  have dark: "two_seeds_row ! (0 * 3 + 1) < 1/2" "0 * 3 + 1 < length two_seeds_row"
    by (simp_all add: two_seeds_row_def)
  from seeds_have_distance_zero[of two_seeds_row 3 1 "1/2"] two_seeds_row_run dark
  have "[Fin 0, Fin 0, Fin 1] ! (0 * 3 + 1) = Fin 0"
    by (metis (no_types, lifting) less_numeral_extra(1) numeral_less_iff one_less_numeral_iff semiring_norm(77))
  with two_seeds_row_run dark show ?thesis by simp
qed

subsection \<open>Stored distances only go down\<close>


lemma relax_writes_lower:
  "solution (relax f w h x y nb st) i = solution st i \<or> solution (relax f w h x y nb st) i < solution st i"
  by (auto simp: relax_def Let_def split: option.splits)

lemma relax_le: "solution (relax f w h x y nb st) i \<le> solution st i"
  using relax_writes_lower[of f w h x y nb st i] by auto

lemma fold_relax_le: "solution (fold (relax f w h x y) nbs st) i \<le> solution st i"
proof (induction nbs arbitrary: st)
  case Nil
  then show ?case by simp
next
  case (Cons nb nbs)
  have "solution (fold (relax f w h x y) nbs (relax f w h x y nb st)) i \<le> solution (relax f w h x y nb st) i"
    by (rule Cons.IH)
  also have "\<dots> \<le> solution st i" by (rule relax_le)
  finally show ?case by simp
qed

lemma fmm_step_le: "solution (fmm_step f w h st) i \<le> solution st i"
proof (cases "heapPop (heap st)")
  case (Pair r h')
  show ?thesis
  proof (cases r)
    case None
    with Pair show ?thesis by (simp add: fmm_step_def)
  next
    case (Some cur)
    let ?st1 = "st\<lparr>heap := h', visited := (visited st)(idx w (item_x cur) (item_y cur) := True)\<rparr>"
    have "solution (fmm_step f w h st) i =
          solution (fold (relax f w h (item_x cur) (item_y cur))
            [(item_x cur - 1, item_y cur), (item_x cur + 1, item_y cur),
             (item_x cur, item_y cur - 1), (item_x cur, item_y cur + 1)] ?st1) i"
      using Pair Some by (simp add: fmm_step_def Let_def del: fold_simps)
    also have "\<dots> \<le> solution ?st1 i" by (rule fold_relax_le)
    finally show ?thesis by simp
  qed
qed

lemma funpow_fmm_step_le: "solution ((fmm_step f w h ^^ n) st) i \<le> solution st i"
proof (induction n)
  case 0
  then show ?case by simp
next
  case (Suc n)
  have "solution (fmm_step f w h ((fmm_step f w h ^^ n) st)) i \<le> solution ((fmm_step f w h ^^ n) st) i"
    by (rule fmm_step_le)
  with Suc show ?case by simp
qed

text \<open>
  The write with the rounding of the store. A rounding that is monotone and leaves the
  numbers it produces as they are, as rounding to single precision does, cannot lift a
  value that is below a stored number above that number: the rounded write leaves the
  entry at most what it was. It can leave it equal, where the unrounded write lowers it.
\<close>

lemma relax_stored_exact: "relax_stored Fin f w h x y nb st = relax f w h x y nb st"
  by (simp add: relax_stored_def relax_def)

lemma rounded_store_never_rises:
  assumes mono: "\<And>a b. a \<le> b \<Longrightarrow> fround a \<le> fround b"
    and held: "\<And>s. solution st i = Fin s \<Longrightarrow> fround s = Fin s"
  shows "solution (relax_stored fround f w h x y nb st) i \<le> solution st i"
proof -
  have "fround nv \<le> solution st i" if "Fin nv < solution st i" for nv
  proof (cases "solution st i")
    case (Fin s)
    with that have "nv \<le> s" by simp
    then have "fround nv \<le> fround s" by (rule mono)
    with held[OF Fin] Fin show ?thesis by simp
  next
    case Infinity
    then show ?thesis by (cases "fround nv") (simp_all add: less_eq_num_def)
  qed
  then show ?thesis
    by (auto simp: relax_stored_def Let_def split: option.splits)
qed

text \<open>
  C6, as the code has it. Line 284 admits a write only when the new value is below the
  stored one, so no write raises an entry: after a relaxation, after a pass of the loop
  and after any number of passes, an entry is at most what it was.
\<close>

theorem stored_distance_never_rises:
  "solution (relax f w h x y nb st) i \<le> solution st i
   \<and> solution (fmm_step f w h st) i \<le> solution st i
   \<and> solution ((fmm_step f w h ^^ n) st) i \<le> solution st i"
  using relax_le fmm_step_le funpow_fmm_step_le by blast

text \<open>
  C6 as stated fails. In the row above, cell 4 holds 7/10 after six passes; the seventh
  pass writes 1/2 to it.
\<close>

theorem stored_distance_decreases_counterexample:
  "solution ((fmm_step two_fronts_row 8 1 ^^ 6) (init_state two_fronts_row 8 1 (1/10))) 4 = Fin (7/10)
   \<and> solution ((fmm_step two_fronts_row 8 1 ^^ 7) (init_state two_fronts_row 8 1 (1/10))) 4 = Fin (1/2)
   \<and> \<not> (solution ((fmm_step two_fronts_row 8 1 ^^ 7) (init_state two_fronts_row 8 1 (1/10))) 4
          \<ge> solution ((fmm_step two_fronts_row 8 1 ^^ 6) (init_state two_fronts_row 8 1 (1/10))) 4)"
proof -
  have a: "solution ((fmm_step two_fronts_row 8 1 ^^ 6) (init_state two_fronts_row 8 1 (1/10))) 4 = Fin (7/10)"
    by (simp add: two_fronts_row_def eval_nat_numeral step_defs upt_rec)
  have b: "solution ((fmm_step two_fronts_row 8 1 ^^ 7) (init_state two_fronts_row 8 1 (1/10))) 4 = Fin (1/2)"
    by (simp add: two_fronts_row_def eval_nat_numeral step_defs upt_rec)
  show ?thesis unfolding a b by simp
qed
subsection \<open>Which cell's neighbours enter the update\<close>

lemma sqrt2_not_two: "sqrt 2 \<noteq> 2"
proof -
  have "sqrt 2 < sqrt 4" by (rule real_sqrt_less_mono) simp
  then show ?thesis by simp
qed

text \<open>
  C3 at a concrete state. In the 3 by 3 field whose top row and left middle cell are
  seeds, after three passes the heap's root is the seed (1, 0) and the centre cell (1, 1)
  is not visited. Popping (1, 0), the code relaxes the centre with the minima of the
  neighbours of (1, 0): 0 on the horizontal axis and, on the vertical axis, the centre's
  own tentative value 1; both are finite and the result is 1. The specification's scheme
  at the centre takes the centre's neighbours, 0 on both axes, and gives half the square
  root of 2.
\<close>

theorem newValue_reads_popped_cell:
  "fst (heapPop (heap ((fmm_step corner_field 3 3 ^^ 3) (init_state corner_field 3 3 (1/10)))))
     = Some \<lparr>item_x = 1, item_y = 0, item_value = 0\<rparr>
   \<and> visited ((fmm_step corner_field 3 3 ^^ 3) (init_state corner_field 3 3 (1/10))) (idx 3 1 1) = False
   \<and> newValue corner_field 3 3
        (solution ((fmm_step corner_field 3 3 ^^ 3) (init_state corner_field 3 3 (1/10)))) 1 0 (idx 3 1 1)
     = Some 1
   \<and> spec_update corner_field 3 3
        (solution ((fmm_step corner_field 3 3 ^^ 3) (init_state corner_field 3 3 (1/10)))) 1 1
     = Some (sqrt 2 / 2)
   \<and> sqrt 2 / 2 \<noteq> (1::real)"
proof -
  have st: "(fmm_step corner_field 3 3 ^^ 3) (init_state corner_field 3 3 (1/10)) =
      \<lparr>solution = (\<lambda>_. Infinity)(0 := Fin 0, 1 := Fin 0, 2 := Fin 0, 3 := Fin 0, 4 := Fin 1,
                                  6 := Fin 1, 5 := Fin 1),
        visited = (\<lambda>_. False)(1 := True, 0 := True, 3 := True, 2 := True),
        heap = [\<lparr>item_x = 1, item_y = 0, item_value = 0\<rparr>,
                \<lparr>item_x = 0, item_y = 2, item_value = 1\<rparr>,
                \<lparr>item_x = 1, item_y = 1, item_value = 1\<rparr>,
                \<lparr>item_x = 2, item_y = 1, item_value = 1\<rparr>],
        processed = 3\<rparr>"
    by (simp add: corner_field_def eval_nat_numeral step_defs upt_rec)
  show ?thesis
    unfolding st
    by (simp add: corner_field_def heapPop_def idx_def newValue_def upwind_def safeGet_def
        Math_min_def gray_at_def spec_update_def spec_upwind_def Let_def sqrt2_not_two)
qed

section \<open>Properties of the contour extractor\<close>

lemma cell_lines_count:
  "length (cell_lines env level x y) =
     (let code = cell_code (contour_safeGet env x y) (contour_safeGet env (x + 1) y)
                   (contour_safeGet env x (y + 1)) (contour_safeGet env (x + 1) (y + 1)) level
      in if code = 0 \<or> code = 15 then 0
         else if code = 5 \<or> code = 7 \<or> code = 8 \<or> code = 10 then 2 else 1)"
  by (simp add: cell_lines_def Let_def cell_code_def)

text \<open>
  C4 at a concrete block. With corner values 0, 0, 0 and 1 and the level 1/2 only the last
  corner is at or above the level, the corner code is 8, and the extractor emits two
  segments: the \<open>switch\<close> gives the cases 7 and 8 two \<open>addLine\<close> calls, where the
  marching-squares table has one segment.
\<close>

theorem single_corner_block_emits_two_segments:
  "cell_code (contour_safeGet one_high_corner 0 0) (contour_safeGet one_high_corner 1 0)
     (contour_safeGet one_high_corner 0 1) (contour_safeGet one_high_corner 1 1) (1/2) = 8
   \<and> length (cell_lines one_high_corner (1/2) 0 0) = 2"
  by (simp add: cell_lines_def one_high_corner_def contour_safeGet_def cell_code_def Let_def)

text \<open>
  C5 at a concrete range. For a field whose values span 0 to 1 and the interval 2, the
  first candidate level \<open>min + interval\<close> is already past \<open>max\<close>, the loop body never
  runs and no level is produced, although the range is far above the tolerance 0.001.
\<close>

theorem no_level_when_interval_exceeds_range:
  "generateAdaptiveLevels 2 (Fin 0) (Fin 1) = Some []"
  by (simp add: generateAdaptiveLevels_def levels_loop.simps)

section \<open>Properties of the stipple sampler\<close>

subsection \<open>The sampler on a strip of dark pixels\<close>

lemma sqrt2_bounds: "1 < sqrt 2" "sqrt 2 < 8 / 5"
proof -
  show "1 < sqrt 2" by simp
  have "sqrt 2 < sqrt ((8 / 5)\<^sup>2)" by (rule real_sqrt_less_mono) (simp add: power2_eq_square)
  then show "sqrt 2 < 8 / 5" by simp
qed

lemma strip_cell_zero: "0 \<le> x \<Longrightarrow> x < 5 \<Longrightarrow> \<lfloor>x / (8 / sqrt 2)\<rfloor> = 0"
proof -
  assume x: "0 \<le> x" "x < 5"
  have "x * sqrt 2 < 5 * (8 / 5)"
    using x sqrt2_bounds by (intro mult_strict_mono') auto
  then have "x / (8 / sqrt 2) < 1" by simp
  moreover have "0 \<le> x / (8 / sqrt 2)" using x by simp
  ultimately show ?thesis by (simp add: floor_eq_iff)
qed

lemma strip_cell_zero': "0 \<le> x \<Longrightarrow> x < 5 \<Longrightarrow> \<lfloor>x * sqrt 2 / 8\<rfloor> = 0"
  using strip_cell_zero[of x] by simp

lemma strip_ceil_one: "0 < x \<Longrightarrow> x \<le> 5 \<Longrightarrow> \<lceil>x / (8 / sqrt 2)\<rceil> = 1"
proof -
  assume x: "0 < x" "x \<le> 5"
  have "x * sqrt 2 \<le> 5 * (8 / 5)"
    using x sqrt2_bounds by (intro mult_mono) auto
  then have "x / (8 / sqrt 2) \<le> 1" by simp
  moreover have "0 < x / (8 / sqrt 2)" using x by simp
  ultimately show ?thesis by (simp add: ceiling_eq_iff)
qed

lemma ceil_sqrt2: "\<lceil>sqrt 2\<rceil> = 2"
  using sqrt2_bounds by (simp add: ceiling_eq_iff)

lemma strip_grid [simp]:
  "cellSize (dark_strip rnd) = 8 / sqrt 2"
  "gridWidth (dark_strip rnd) = 1"
  "gridHeight (dark_strip rnd) = 1"
  "checkRange (dark_strip rnd) = 2"
  using strip_ceil_one[of 5] strip_ceil_one[of 1] ceil_sqrt2
  by (simp_all add: cellSize_def gridWidth_def gridHeight_def checkRange_def maxRadius_def dark_strip_def)

lemma strip_fields [simp]:
  "s_width (dark_strip rnd) = 5" "s_height (dark_strip rnd) = 1" "random (dark_strip rnd) = rnd"
  "s_grayData (dark_strip rnd) = [0, 0, 0, 0, 0]" "s_threshold (dark_strip rnd) = 1/2"
  "s_signal (dark_strip rnd) = (\<lambda>_. Proceed)"
  by (simp_all add: dark_strip_def)

lemma strip_gray: "0 \<le> x \<Longrightarrow> x < 5 \<Longrightarrow> [0, 0, 0, 0, 0::real] ! nat \<lfloor>x::real\<rfloor> = 0"
proof -
  assume a: "0 \<le> x" "x < 5"
  have "0 \<le> \<lfloor>x\<rfloor>" "\<lfloor>x\<rfloor> < 5" using a by (simp_all add: floor_less_iff)
  then have lt: "nat \<lfloor>x\<rfloor> < 5" by linarith
  have "[0, 0, 0, 0, 0::real] ! nat \<lfloor>x\<rfloor> \<in> set [0, 0, 0, 0, 0::real]"
    by (rule nth_mem) (use lt in simp)
  then show ?thesis by simp
qed

lemma strip_radius:
  assumes "0 \<le> x" "x < 5" "0 \<le> y" "y < 1"
  shows "getRadius (dark_strip rnd) x y = 3/2"
proof -
  have y: "\<lfloor>y\<rfloor> = 0" using assms by (simp add: floor_eq_iff)
  show ?thesis
    using strip_gray[OF assms(1,2)] by (simp add: getRadius_def y minRadius_def Let_def)
qed

lemma strip_mask:
  assumes "0 \<le> x" "x < 5" "0 \<le> y" "y < 1"
  shows "mask (dark_strip rnd) (\<lfloor>y::real\<rfloor> * 5 + \<lfloor>x::real\<rfloor>)"
proof -
  have y: "\<lfloor>y\<rfloor> = 0" using assms by (simp add: floor_eq_iff)
  have x: "0 \<le> \<lfloor>x\<rfloor>" "\<lfloor>x\<rfloor> < 5" using assms by (simp_all add: floor_less_iff)
  then have lt: "nat \<lfloor>x\<rfloor> < 5" by linarith
  show ?thesis
    using strip_gray[OF assms(1,2)] x lt by (simp add: mask_def y is_seed_def gray_at_def)
qed

lemma upto_m2_2: "[- 2..2::int] = [- 2, - 1, 0, 1, 2]"
  by (simp add: upto.simps)

lemma strip_tooClose:
  assumes "0 \<le> nx" "nx < 5" "0 \<le> ny" "ny < 1"
  shows "tooClose (dark_strip rnd) st nx ny nr = near_cell (dark_strip rnd) st nx ny nr 0 0"
proof -
  have g: "\<lfloor>nx / (8 / sqrt 2)\<rfloor> = 0" "\<lfloor>ny / (8 / sqrt 2)\<rfloor> = 0"
    using assms by (simp_all only: strip_cell_zero)
  have off: "\<not> near_cell (dark_strip rnd) st nx ny nr a b" if "a \<noteq> 0 \<or> b \<noteq> 0" for a b
    using that by (auto simp: near_cell_def)
  show ?thesis
    unfolding tooClose_def Let_def strip_grid g upto_m2_2
    by (simp add: off)
qed

lemma strip_accepts:
  assumes "0 \<le> px c" "px c < 5" "0 \<le> py c" "py c < 1"
    and "\<not> near_cell (dark_strip rnd) st (px c) (py c) (3/2) 0 0"
  shows "accepts (dark_strip rnd) st c"
proof -
  have "accepts (dark_strip rnd) st c =
        (\<not> tooClose (dark_strip rnd) st (px c) (py c) (getRadius (dark_strip rnd) (px c) (py c)))"
    using assms(1-4) strip_mask[OF assms(1-4), of rnd] by (simp add: accepts_def Let_def)
  also have "\<dots> = (\<not> tooClose (dark_strip rnd) st (px c) (py c) (3/2))"
    by (simp only: strip_radius[OF assms(1-4)])
  also have "\<dots> = (\<not> near_cell (dark_strip rnd) st (px c) (py c) (3/2) 0 0)"
    by (simp only: strip_tooClose[OF assms(1-4)])
  finally show ?thesis using assms(5) by simp
qed

lemma strip_insertPoint:
  assumes "0 \<le> px p" "px p < 5" "0 \<le> py p" "py p < 1"
  shows "insertPoint (dark_strip rnd) p st =
           st\<lparr>points := points st @ [p], grid := (grid st)(0 := int (length (points st))),
              active := active st @ [length (points st)]\<rparr>"
proof -
  have g: "\<lfloor>px p / (8 / sqrt 2)\<rfloor> = 0" "\<lfloor>py p / (8 / sqrt 2)\<rfloor> = 0"
    using assms by (simp_all only: strip_cell_zero)
  show ?thesis
    unfolding insertPoint_def Let_def strip_grid g by simp
qed

lemma strip_numSeeds: "numSeeds (dark_strip rnd) = 1"
proof -
  have "\<lceil>(1::real) / 2000\<rceil> = 1" by (simp add: ceiling_eq_iff)
  then show ?thesis by (simp add: numSeeds_def activePixels_def)
qed

lemma near_cell_cong:
  "points st' = points st \<Longrightarrow> grid st' = grid st \<Longrightarrow>
   near_cell env st' nx ny nr a b = near_cell env st nx ny nr a b"
  by (simp add: near_cell_def)

lemma tooClose_cong:
  "points st' = points st \<Longrightarrow> grid st' = grid st \<Longrightarrow>
   tooClose env st' nx ny nr = tooClose env st nx ny nr"
  by (simp add: tooClose_def near_cell_cong[of st' st])

lemma accepts_cong:
  "points st' = points st \<Longrightarrow> grid st' = grid st \<Longrightarrow> accepts env st' c = accepts env st c"
  by (simp add: accepts_def tooClose_cong[of st' st])

lemma strip_seed_points:
  assumes "rnd 0 = 1/2" "rnd (Suc 0) = 1/2"
  shows "seed_points (dark_strip rnd) = strip_start"
proof -
  let ?E = "dark_strip rnd"
  let ?st0 = "\<lparr>points = [], grid = (\<lambda>_. - 1), active = [], drawn = 0, passes = 0\<rparr>"
  let ?c = "\<lparr>px = 5/2, py = 1/2\<rparr>"
  have m: "mask ?E 2"
    using strip_mask[of "5/2" "1/2" rnd] by simp
  have "seed_attempts ?E (Suc 49) ?st0 = insertPoint ?E ?c (?st0\<lparr>drawn := drawn ?st0 + 2\<rparr>)"
    unfolding seed_attempts.simps Let_def using m by (simp add: assms)
  also have "\<dots> = strip_start"
    by (subst strip_insertPoint) (simp_all add: strip_start_def)
  finally have "seed_attempts ?E 50 ?st0 = strip_start" by simp
  then show ?thesis
    by (simp add: seed_points_def strip_numSeeds Let_def strip_start_def)
qed

lemma try_candidates_first:
  "accepts env (st\<lparr>drawn := drawn st + 2\<rparr>) (candidate env p r (drawn st)) \<Longrightarrow>
   try_candidates env p r (Suc n) st =
     (True, insertPoint env (candidate env p r (drawn st)) (st\<lparr>drawn := drawn st + 2\<rparr>))"
  by (simp add: Let_def)

lemma strip_pass_accept:
  assumes idx: "pick (dark_strip rnd) st = int a" "a < length (active st)"
    and act: "active st ! a = i" "i < length (points st)" "points st ! i = p"
    and p: "0 \<le> px p" "px p < 5" "0 \<le> py p" "py p < 1"
    and c: "candidate (dark_strip rnd) p (3/2) (Suc (drawn st)) = c"
    and n: "0 \<le> px c" "px c < 5" "0 \<le> py c" "py c < 1"
    and far: "\<not> near_cell (dark_strip rnd) st (px c) (py c) (3/2) 0 0"
  shows "stipple_pass (dark_strip rnd) st =
           Inr (st\<lparr>drawn := drawn st + 3, passes := passes st + 1,
                   points := points st @ [c],
                   grid := (grid st)(0 := int (length (points st))),
                   active := active st @ [length (points st)]\<rparr>)"
proof -
  let ?E = "dark_strip rnd"
  let ?st1 = "st\<lparr>drawn := drawn st + 1, passes := passes st + 1\<rparr>"
  let ?st2 = "?st1\<lparr>drawn := drawn ?st1 + 2\<rparr>"
  have r: "getRadius ?E (px p) (py p) = 3/2" using p by (rule strip_radius)
  have c1: "candidate ?E p (3/2) (drawn ?st1) = c" using c by simp
  have "accepts ?E st c" using n far by (rule strip_accepts)
  moreover have "accepts ?E ?st2 c = accepts ?E st c" by (rule accepts_cong) simp_all
  ultimately have acc: "accepts ?E ?st2 (candidate ?E p (3/2) (drawn ?st1))"
    by (simp only: c1)
  have "try_candidates ?E p (3/2) (Suc 19) ?st1 = (True, insertPoint ?E c ?st2)"
    using try_candidates_first[OF acc, of 19] by (simp only: c1)
  also have "insertPoint ?E c ?st2 =
      ?st2\<lparr>points := points ?st2 @ [c], grid := (grid ?st2)(0 := int (length (points ?st2))),
           active := active ?st2 @ [length (points ?st2)]\<rparr>"
    using n by (rule strip_insertPoint)
  finally have t: "try_candidates ?E p (3/2) k_attempts ?st1 =
      (True, ?st2\<lparr>points := points ?st2 @ [c], grid := (grid ?st2)(0 := int (length (points ?st2))),
           active := active ?st2 @ [length (points ?st2)]\<rparr>)"
    by (simp add: k_attempts_def)
  have "stipple_pass ?E st =
      Inr (?st2\<lparr>points := points ?st2 @ [c], grid := (grid ?st2)(0 := int (length (points ?st2))),
           active := active ?st2 @ [length (points ?st2)]\<rparr>)"
  proof -
    have e1: "\<not> (int a < 0 \<or> int (length (active st)) \<le> int a)" using idx(2) by simp
    have e2: "\<not> length (points st) \<le> active st ! nat (int a)" using act by simp
    have p': "points st ! (active st ! nat (int a)) = p" using act by simp
    show ?thesis
      unfolding stipple_pass_def Let_def idx
      by (simp only: e1 e2 if_False p' r t prod.case simp_thms)
  qed
  then show ?thesis by simp
qed
lemma alternating_draws_pass:
  "alternating_draws (2 + 3 * j) = 0"
  "alternating_draws (Suc (2 + 3 * j)) = (if odd j then 1/2 else 0)"
  "alternating_draws (Suc (2 + 3 * j) + 1) = 0"
proof -
  have a: "(2 + 3 * j) - 2 = 3 * j" "Suc (2 + 3 * j) - 2 = 3 * j + 1" "Suc (2 + 3 * j) + 1 - 2 = 3 * j + 2"
    by simp_all
  have m: "(3 * j) mod 3 = 0" "(3 * j + 1) mod 3 = 1" "(3 * j + 2) mod 3 = 2" "(3 * j + 1) div 3 = j"
    by presburger+
  have lt: "\<not> 2 + 3 * j < 2" "\<not> Suc (2 + 3 * j) < 2" "\<not> Suc (2 + 3 * j) + 1 < 2" by simp_all
  show "alternating_draws (2 + 3 * j) = 0"
    unfolding alternating_draws_def a by (simp only: lt m if_False) simp
  show "alternating_draws (Suc (2 + 3 * j)) = (if odd j then 1/2 else 0)"
    unfolding alternating_draws_def a by (simp only: lt m if_False) simp
  show "alternating_draws (Suc (2 + 3 * j) + 1) = 0"
    unfolding alternating_draws_def a by (simp only: lt m if_False) simp
qed

lemma strip_near_cell:
  assumes "grid st 0 = int j" "points st ! j = q"
    and "0 \<le> px q" "px q < 5" "0 \<le> py q" "py q < 1"
  shows "near_cell (dark_strip rnd) st nx ny (3/2) 0 0 = ((nx - px q)\<^sup>2 + (ny - py q)\<^sup>2 < 9/4)"
proof -
  have g: "grid st (0 * gridWidth (dark_strip rnd) + 0) = int j" using assms(1) by simp
  have r: "getRadius (dark_strip rnd) (px q) (py q) = 3/2" using assms(3-6) by (rule strip_radius)
  have n: "points st ! nat (int j) = q" using assms(2) by simp
  show ?thesis
    unfolding near_cell_def Let_def g n r by simp
qed

lemma strip_inv_start: "strip_inv 0 strip_start"
  by (simp add: strip_inv_def strip_start_def)

lemma strip_inv_pass:
  assumes "strip_inv j st"
  shows "\<exists>st'. stipple_pass (dark_strip alternating_draws) st = Inr st' \<and> strip_inv (Suc j) st'"
proof -
  let ?E = "dark_strip alternating_draws"
  let ?p0 = "\<lparr>px = 5/2, py = 1/2\<rparr>"
  let ?c = "if odd j then \<lparr>px = 1, py = 1/2\<rparr> else \<lparr>px = 4, py = 1/2::real\<rparr>"
  from assms have inv:
    "length (points st) = j + 1" "points st ! 0 = ?p0"
    "points st ! j = (if j = 0 then ?p0 else if odd j then \<lparr>px = 4, py = 1/2\<rparr> else \<lparr>px = 1, py = 1/2\<rparr>)"
    "grid st 0 = int j" "active st \<noteq> []" "active st ! 0 = 0" "drawn st = 2 + 3 * j" "passes st = j"
    by (simp_all add: strip_inv_def)
  have pick: "pick ?E st = int 0"
    unfolding pick_def strip_fields inv(7) alternating_draws_pass by simp
  have a: "0 < length (active st)" using inv(5) by simp
  have i: "0 < length (points st)" using inv(1) by simp
  have cand: "candidate ?E ?p0 (3/2) (Suc (drawn st)) = ?c"
    unfolding candidate_def Let_def strip_fields inv(7) alternating_draws_pass by simp
  have cb: "0 \<le> px ?c" "px ?c < 5" "0 \<le> py ?c" "py ?c < 1" by simp_all
  have nb: "0 \<le> px (points st ! j)" "px (points st ! j) < 5" "0 \<le> py (points st ! j)" "py (points st ! j) < 1"
    by (simp_all add: inv(3))
  have far: "\<not> near_cell ?E st (px ?c) (py ?c) (3/2) 0 0"
    unfolding strip_near_cell[OF inv(4) refl nb]
    by (simp add: inv(3) power2_eq_square)
  from strip_pass_accept[OF pick a inv(6) i inv(2) _ _ _ _ cand cb far]
  have pass: "stipple_pass ?E st =
      Inr (st\<lparr>drawn := drawn st + 3, passes := passes st + 1, points := points st @ [?c],
              grid := (grid st)(0 := int (length (points st))),
              active := active st @ [length (points st)]\<rparr>)"
    by simp
  have "strip_inv (Suc j)
      (st\<lparr>drawn := drawn st + 3, passes := passes st + 1, points := points st @ [?c],
          grid := (grid st)(0 := int (length (points st))),
          active := active st @ [length (points st)]\<rparr>)"
    using inv by (simp add: strip_inv_def nth_append)
  with pass show ?thesis by blast
qed

lemma strip_loop_fills:
  assumes "strip_inv j st" "j < maxPoints"
  shows "\<exists>st'. stipple_loop (dark_strip alternating_draws) st = Fulfilled st'
              \<and> length (points st') = Suc maxPoints"
  using assms
proof (induction "maxPoints - j" arbitrary: j st)
  case 0
  then show ?case by simp
next
  case (Suc k)
  let ?E = "dark_strip alternating_draws"
  from strip_inv_pass[OF Suc.prems(1)] obtain st' where
    pass: "stipple_pass ?E st = Inr st'" and inv': "strip_inv (Suc j) st'" by blast
  have ne: "length (active st) > 0" using Suc.prems(1) by (simp add: strip_inv_def)
  have len: "length (points st') = j + 2" using inv' by (simp add: strip_inv_def)
  have unroll: "stipple_loop ?E st =
      (if length (points st') > maxPoints then Fulfilled st' else stipple_loop ?E st')"
    by (subst stipple_loop.simps) (use ne pass in simp)
  show ?case
  proof (cases "Suc j < maxPoints")
    case True
    have "k = maxPoints - Suc j" using Suc.hyps(2) by simp
    from Suc.hyps(1)[OF this inv' True] obtain st'' where
      "stipple_loop ?E st' = Fulfilled st''" "length (points st'') = Suc maxPoints" by blast
    then show ?thesis using unroll True len by simp
  next
    case False
    then have "Suc j = maxPoints" using Suc.prems(2) by simp
    then show ?thesis using unroll len by simp
  qed
qed

lemma stipple_loop_unroll:
  "active st \<noteq> [] \<Longrightarrow> s_signal env (passes st) = Proceed \<Longrightarrow>
   stipple_pass env st = Inr st' \<Longrightarrow> \<not> length (points st') > maxPoints \<Longrightarrow>
   stipple_loop env st = stipple_loop env st'"
  by (subst stipple_loop.simps) simp

lemma crowding_draws_simps:
  "crowding_draws 0 = 1/2" "crowding_draws (Suc 0) = 1/2" "crowding_draws 2 = 0"
  "crowding_draws 3 = 0" "crowding_draws 4 = 0" "crowding_draws 5 = 1/2"
  "crowding_draws 6 = 1/2" "crowding_draws 7 = 1/3"
  by (simp_all add: crowding_draws_def)

lemma crowded_pass_1: "stipple_pass (dark_strip crowding_draws) strip_start = Inr crowded_1"
proof -
  let ?E = "dark_strip crowding_draws"
  let ?p0 = "\<lparr>px = 5/2, py = 1/2::real\<rparr>"
  let ?c = "\<lparr>px = 4, py = 1/2::real\<rparr>"
  have pick: "pick ?E strip_start = int 0"
    by (simp add: pick_def strip_start_def crowding_draws_simps)
  have cand: "candidate ?E ?p0 (3/2) (Suc (drawn strip_start)) = ?c"
    by (simp add: candidate_def Let_def strip_start_def crowding_draws_simps eval_nat_numeral(3)[symmetric])
  have far: "\<not> near_cell ?E strip_start (px ?c) (py ?c) (3/2) 0 0"
    by (subst strip_near_cell[where j = 0 and q = ?p0]) (simp_all add: strip_start_def power2_eq_square)
  have "stipple_pass ?E strip_start =
      Inr (strip_start\<lparr>drawn := drawn strip_start + 3, passes := passes strip_start + 1,
              points := points strip_start @ [?c],
              grid := (grid strip_start)(0 := int (length (points strip_start))),
              active := active strip_start @ [length (points strip_start)]\<rparr>)"
    by (rule strip_pass_accept[OF pick _ _ _ _ _ _ _ _ cand _ _ _ _ far, where i = 0])
       (simp_all add: strip_start_def)
  then show ?thesis by (simp add: strip_start_def crowded_1_def)
qed

lemma crowded_pass_2: "stipple_pass (dark_strip crowding_draws) crowded_1 = Inr crowded_2"
proof -
  let ?E = "dark_strip crowding_draws"
  let ?p = "\<lparr>px = 4, py = 1/2::real\<rparr>"
  let ?c = "\<lparr>px = 2, py = 1/2::real\<rparr>"
  have pick: "pick ?E crowded_1 = int 1"
    by (simp add: pick_def crowded_1_def crowding_draws_simps)
  have "Suc (drawn crowded_1) = 6" "Suc (drawn crowded_1) + 1 = 7" by (simp_all add: crowded_1_def)
  then have cand: "candidate ?E ?p (3/2) (Suc (drawn crowded_1)) = ?c"
    unfolding candidate_def Let_def strip_fields by (simp only: crowding_draws_simps) simp
  have far: "\<not> near_cell ?E crowded_1 (px ?c) (py ?c) (3/2) 0 0"
    by (subst strip_near_cell[where j = 1 and q = ?p]) (simp_all add: crowded_1_def power2_eq_square)
  have "stipple_pass ?E crowded_1 =
      Inr (crowded_1\<lparr>drawn := drawn crowded_1 + 3, passes := passes crowded_1 + 1,
              points := points crowded_1 @ [?c],
              grid := (grid crowded_1)(0 := int (length (points crowded_1))),
              active := active crowded_1 @ [length (points crowded_1)]\<rparr>)"
    by (rule strip_pass_accept[OF pick _ _ _ _ _ _ _ _ cand _ _ _ _ far, where i = 1])
       (simp_all add: crowded_1_def)
  then show ?thesis by (simp add: crowded_1_def crowded_2_def)
qed

subsection \<open>Spacing\<close>

text \<open>
  C7 at a concrete run. On the strip, under \<open>crowding_draws\<close>, the loop goes from the
  seed through two passes that each accept their first dart. All three points fall in
  grid cell (0, 0). The second point overwrote the seed's grid entry, so the third was
  tested against the second only: it lies at squared distance 1/4 from the seed, while the
  average of their radii is 3/2, whose square is 9/4.
\<close>

theorem stipple_accepts_crowded_point:
  "seed_points (dark_strip crowding_draws) = strip_start
   \<and> stipple_pass (dark_strip crowding_draws) strip_start = Inr crowded_1
   \<and> stipple_pass (dark_strip crowding_draws) crowded_1 = Inr crowded_2
   \<and> stipple_loop (dark_strip crowding_draws) strip_start = stipple_loop (dark_strip crowding_draws) crowded_2
   \<and> points crowded_2 = [\<lparr>px = 5/2, py = 1/2\<rparr>, \<lparr>px = 4, py = 1/2\<rparr>, \<lparr>px = 2, py = 1/2\<rparr>]
   \<and> cell_of (dark_strip crowding_draws) (points crowded_2 ! 0) = (0, 0)
   \<and> cell_of (dark_strip crowding_draws) (points crowded_2 ! 2) = (0, 0)
   \<and> (px (points crowded_2 ! 0) - px (points crowded_2 ! 2))\<^sup>2
       + (py (points crowded_2 ! 0) - py (points crowded_2 ! 2))\<^sup>2 = 1/4
   \<and> ((getRadius (dark_strip crowding_draws) (px (points crowded_2 ! 0)) (py (points crowded_2 ! 0))
        + getRadius (dark_strip crowding_draws) (px (points crowded_2 ! 2)) (py (points crowded_2 ! 2))) / 2)\<^sup>2
       = 9/4"
proof -
  let ?E = "dark_strip crowding_draws"
  have seed: "seed_points ?E = strip_start"
    by (rule strip_seed_points) (simp_all add: crowding_draws_simps)
  have l1: "stipple_loop ?E strip_start = stipple_loop ?E crowded_1"
    by (rule stipple_loop_unroll[OF _ _ crowded_pass_1])
       (simp_all add: strip_start_def crowded_1_def maxPoints_def)
  have l2: "stipple_loop ?E crowded_1 = stipple_loop ?E crowded_2"
    by (rule stipple_loop_unroll[OF _ _ crowded_pass_2])
       (simp_all add: crowded_1_def crowded_2_def maxPoints_def)
  have cells: "cell_of ?E \<lparr>px = 5/2, py = 1/2\<rparr> = (0, 0)" "cell_of ?E \<lparr>px = 2, py = 1/2\<rparr> = (0, 0)"
    using strip_cell_zero[of "5/2"] strip_cell_zero[of "1/2"] strip_cell_zero[of 2]
    by (simp_all add: cell_of_def)
  have r: "getRadius ?E (5/2) (1/2) = 3/2" "getRadius ?E 2 (1/2) = 3/2"
    by (rule strip_radius; simp)+
  show ?thesis
    using seed crowded_pass_1 crowded_pass_2 l1 l2 cells
    by (simp add: crowded_2_def r power2_eq_square)
qed

subsection \<open>The cap\<close>

text \<open>
  C8 at a concrete run. On the strip, under \<open>alternating_draws\<close>, every pass accepts a
  point: the dart is tested against the one point the grid cell remembers, which lies on
  the other side of the seed. Line 698 stops the loop once the count is above 150000, so
  the handler returns 150001 points.
\<close>

theorem stipple_reaches_150001:
  "\<exists>pts. extractStipple (dark_strip alternating_draws) = Fulfilled pts \<and> length pts = 150001"
proof -
  have seed: "seed_points (dark_strip alternating_draws) = strip_start"
    by (rule strip_seed_points) (simp_all add: alternating_draws_def)
  from strip_loop_fills[OF strip_inv_start] obtain st' where
    "stipple_loop (dark_strip alternating_draws) strip_start = Fulfilled st'"
    "length (points st') = Suc maxPoints"
    by (auto simp: maxPoints_def)
  then show ?thesis
    by (simp add: extractStipple_def seed activePixels_def maxPoints_def)
qed
section \<open>Properties of the tour builder\<close>

lemma cell_coord:
  assumes "0 \<le> x" "x < real w"
  shows "0 \<le> \<lfloor>x / tsp_cellSize\<rfloor>" "\<lfloor>x / tsp_cellSize\<rfloor> < \<lceil>real w / tsp_cellSize\<rceil>"
proof -
  show "0 \<le> \<lfloor>x / tsp_cellSize\<rfloor>" using assms by (simp add: tsp_cellSize_def)
  have "x / tsp_cellSize < real w / tsp_cellSize" using assms by (simp add: tsp_cellSize_def)
  also have "\<dots> \<le> of_int \<lceil>real w / tsp_cellSize\<rceil>" by (rule le_of_int_ceiling)
  finally show "\<lfloor>x / tsp_cellSize\<rfloor> < \<lceil>real w / tsp_cellSize\<rceil>" by (simp add: floor_less_iff)
qed

lemma cell_index_range:
  assumes "0 \<le> a" "a < gw" "0 \<le> b" "b < (gh::int)"
  shows "0 \<le> b * gw + a" "b * gw + a < gw * gh"
proof -
  show "0 \<le> b * gw + a" using assms by simp
  have "b * gw + a < (b + 1) * gw" using assms by (simp add: algebra_simps)
  also have "\<dots> \<le> gh * gw" using assms by (intro mult_right_mono) auto
  finally show "b * gw + a < gw * gh" by (simp add: mult.commute)
qed

lemma scan_point_ok:
  "scan_ok env usd s \<Longrightarrow> i < length (t_points env) \<Longrightarrow> scan_ok env usd (scan_point env usd cp i s)"
  by (auto simp: scan_ok_def scan_point_def Let_def)

lemma scan_point_found: "found s \<Longrightarrow> found (scan_point env usd cp i s)"
  by (simp add: scan_point_def Let_def)

lemma scan_point_hit:
  "scan_ok env usd s \<Longrightarrow> usd ! i = False \<Longrightarrow> found (scan_point env usd cp i s)"
  by (auto simp: scan_ok_def scan_point_def Let_def)

lemma fold_scan_point_ok:
  "scan_ok env usd s \<Longrightarrow> list_all (\<lambda>i. i < length (t_points env)) c \<Longrightarrow>
   scan_ok env usd (fold (scan_point env usd cp) c s)"
  by (induction c arbitrary: s) (auto simp: scan_point_ok)

lemma fold_scan_point_found: "found s \<Longrightarrow> found (fold (scan_point env usd cp) c s)"
  by (induction c arbitrary: s) (auto simp: scan_point_found)

lemma fold_scan_point_hit:
  "scan_ok env usd s \<Longrightarrow> list_all (\<lambda>i. i < length (t_points env)) c \<Longrightarrow> i \<in> set c \<Longrightarrow>
   usd ! i = False \<Longrightarrow> found (fold (scan_point env usd cp) c s)"
proof (induction c arbitrary: s)
  case Nil
  then show ?case by simp
next
  case (Cons j c)
  show ?case
  proof (cases "i = j")
    case True
    then have "found (scan_point env usd cp j s)" using Cons.prems by (simp add: scan_point_hit)
    then show ?thesis by (simp add: fold_scan_point_found)
  next
    case False
    then show ?thesis using Cons by (auto simp: scan_point_ok)
  qed
qed

lemma grid_cell_ok:
  assumes "grid_ok env" "0 \<le> a" "a < t_gridWidth env" "0 \<le> b" "b < t_gridHeight env"
  shows "list_all (\<lambda>i. i < length (t_points env)) (t_grid env ! nat (b * t_gridWidth env + a))"
proof -
  from cell_index_range[OF assms(2-5)] have "nat (b * t_gridWidth env + a) < length (t_grid env)"
    using assms(1) by (simp add: grid_ok_def)
  then have "t_grid env ! nat (b * t_gridWidth env + a) \<in> set (t_grid env)" by simp
  then show ?thesis using assms(1) by (auto simp: grid_ok_def list_all_iff)
qed

lemma ring_probe_ok:
  "grid_ok env \<Longrightarrow> scan_ok env usd s \<Longrightarrow> scan_ok env usd (ring_probe env usd cp gx gy sr dy dx s)"
  by (auto simp: ring_probe_def Let_def intro!: fold_scan_point_ok grid_cell_ok)

lemma ring_probe_found: "found s \<Longrightarrow> found (ring_probe env usd cp gx gy sr dy dx s)"
  by (simp add: ring_probe_def Let_def fold_scan_point_found)

lemma fold_keeps:
  "(\<And>y s. I s \<Longrightarrow> I (f y s)) \<Longrightarrow> I s \<Longrightarrow> I (fold f xs s)"
  by (induction xs arbitrary: s) auto

lemma fold_hits:
  assumes "x \<in> set xs"
    and keep: "\<And>y s. I s \<Longrightarrow> I (f y s)"
    and hit: "\<And>s. I s \<Longrightarrow> Q (f x s)"
    and stay: "\<And>y s. I s \<Longrightarrow> Q s \<Longrightarrow> Q (f y s)"
    and "I s"
  shows "Q (fold f xs s)"
proof -
  have both: "I s \<Longrightarrow> Q s \<Longrightarrow> Q (fold f ys s)" for ys s
    by (induction ys arbitrary: s) (auto simp: keep stay)
  from assms(1,5) show ?thesis
  proof (induction xs arbitrary: s)
    case Nil
    then show ?case by simp
  next
    case (Cons y ys)
    show ?case
    proof (cases "x = y")
      case True
      have "Q (f x s)" using Cons.prems(2) by (rule hit)
      then have "I (f y s)" "Q (f y s)" using Cons.prems(2) True by (simp_all add: keep)
      then have "Q (fold f ys (f y s))" by (rule both)
      then show ?thesis by simp
    next
      case False
      then show ?thesis using Cons by (auto simp: keep)
    qed
  qed
qed

lemma scan_ring_ok:
  assumes "grid_ok env" "scan_ok env usd s"
  shows "scan_ok env usd (scan_ring env usd cp gx gy sr s)"
  unfolding scan_ring_def
  by (rule fold_keeps[where I = "scan_ok env usd"], rule fold_keeps[where I = "scan_ok env usd"])
     (simp_all add: assms ring_probe_ok)

lemma scan_ring_found: "found s \<Longrightarrow> found (scan_ring env usd cp gx gy sr s)"
  unfolding scan_ring_def
  by (rule fold_keeps[where I = found], rule fold_keeps[where I = found])
     (simp_all add: ring_probe_found)

lemma ring_probe_hit:
  assumes g: "grid_ok env" and s: "scan_ok env usd s"
    and cell: "0 \<le> a" "a < t_gridWidth env" "0 \<le> b" "b < t_gridHeight env"
    and i: "i \<in> set (t_grid env ! nat (b * t_gridWidth env + a))" "usd ! i = False"
    and d: "max \<bar>a - gx\<bar> \<bar>b - gy\<bar> = sr"
  shows "found (ring_probe env usd cp gx gy sr (b - gy) (a - gx) s)"
proof -
  have nskip: "\<not> (\<bar>a - gx\<bar> \<noteq> sr \<and> \<bar>b - gy\<bar> \<noteq> sr \<and> sr > 0)"
    using d by (auto simp: max_def split: if_splits)
  have "ring_probe env usd cp gx gy sr (b - gy) (a - gx) s =
      fold (scan_point env usd cp) (t_grid env ! nat (b * t_gridWidth env + a)) s"
    unfolding ring_probe_def Let_def by (subst if_not_P[OF nskip]) (simp add: cell)
  then show ?thesis
    using fold_scan_point_hit[OF s grid_cell_ok[OF g cell] i] by simp
qed

lemma scan_ring_hit:
  assumes g: "grid_ok env" and s: "scan_ok env usd s"
    and cell: "0 \<le> a" "a < t_gridWidth env" "0 \<le> b" "b < t_gridHeight env"
    and i: "i \<in> set (t_grid env ! nat (b * t_gridWidth env + a))" "usd ! i = False"
    and d: "max \<bar>a - gx\<bar> \<bar>b - gy\<bar> = sr"
  shows "found (scan_ring env usd cp gx gy sr s)"
  unfolding scan_ring_def
proof (rule fold_hits[where x = "b - gy" and I = "scan_ok env usd" and Q = found])
  show "b - gy \<in> set [- sr..sr]" using d by auto
  show "scan_ok env usd (fold (ring_probe env usd cp gx gy sr y) [- sr..sr] s')"
    if "scan_ok env usd s'" for y s'
    by (rule fold_keeps[where I = "scan_ok env usd"]) (simp_all add: that g ring_probe_ok)
  show "found (fold (ring_probe env usd cp gx gy sr y) [- sr..sr] s')" if "found s'" for y s'
    by (rule fold_keeps[where I = found]) (simp_all add: that ring_probe_found)
  show "found (fold (ring_probe env usd cp gx gy sr (b - gy)) [- sr..sr] s')"
    if s': "scan_ok env usd s'" for s'
  proof (rule fold_hits[where x = "a - gx" and I = "scan_ok env usd" and Q = found])
    show "a - gx \<in> set [- sr..sr]" using d by auto
    show "scan_ok env usd (ring_probe env usd cp gx gy sr (b - gy) y s'')" if "scan_ok env usd s''" for y s''
      using that g by (simp add: ring_probe_ok)
    show "found (ring_probe env usd cp gx gy sr (b - gy) (a - gx) s'')" if "scan_ok env usd s''" for s''
      using ring_probe_hit[OF g that cell i d] .
    show "found (ring_probe env usd cp gx gy sr (b - gy) y s'')" if "found s''" for y s''
      using that by (simp add: ring_probe_found)
    show "scan_ok env usd s'" by (rule s')
  qed
  show "scan_ok env usd s" by (rule s)
qed

lemma ring_search_ok:
  "grid_ok env \<Longrightarrow> scan_ok env usd s \<Longrightarrow> scan_ok env usd (ring_search env usd cp gx gy sr s)"
proof (induction env usd cp gx gy sr s rule: ring_search.induct)
  case (1 env usd cp gx gy sr s)
  show ?case
  proof (cases "\<not> found s \<and> sr < max (t_gridWidth env) (t_gridHeight env)")
    case True
    have "scan_ok env usd (scan_ring env usd cp gx gy sr s)" using 1(2,3) by (rule scan_ring_ok)
    from 1(1)[OF True 1(2) this] True show ?thesis by (subst ring_search.simps) simp
  next
    case False
    then show ?thesis using 1(3) by (subst ring_search.simps) auto
  qed
qed

lemma ring_search_stops: "found s \<Longrightarrow> ring_search env usd cp gx gy sr s = s"
  by (subst ring_search.simps) simp

lemma ring_search_found:
  assumes g: "grid_ok env"
    and cell: "0 \<le> a" "a < t_gridWidth env" "0 \<le> b" "b < t_gridHeight env"
    and i: "i \<in> set (t_grid env ! nat (b * t_gridWidth env + a))" "usd ! i = False"
    and d: "max \<bar>a - gx\<bar> \<bar>b - gy\<bar> < max (t_gridWidth env) (t_gridHeight env)"
  shows "scan_ok env usd s \<Longrightarrow> sr \<le> max \<bar>a - gx\<bar> \<bar>b - gy\<bar> \<Longrightarrow>
         found (ring_search env usd cp gx gy sr s)"
proof (induction "nat (max \<bar>a - gx\<bar> \<bar>b - gy\<bar> - sr)" arbitrary: sr s rule: less_induct)
  case less
  let ?s' = "scan_ring env usd cp gx gy sr s"
  have ok': "scan_ok env usd ?s'" using g less.prems(1) by (rule scan_ring_ok)
  show ?case
  proof (cases "found s")
    case True
    then show ?thesis by (simp add: ring_search_stops)
  next
    case False
    have "sr < max (t_gridWidth env) (t_gridHeight env)" using less.prems(2) d by linarith
    then have unroll: "ring_search env usd cp gx gy sr s = ring_search env usd cp gx gy (sr + 1) ?s'"
      using False by (subst ring_search.simps) simp
    show ?thesis
    proof (cases "sr = max \<bar>a - gx\<bar> \<bar>b - gy\<bar>")
      case True
      then have "found ?s'" using scan_ring_hit[OF g less.prems(1) cell i, of gx gy sr cp] by simp
      then show ?thesis unfolding unroll by (simp add: ring_search_stops)
    next
      case False
      then have lt: "sr + 1 \<le> max \<bar>a - gx\<bar> \<bar>b - gy\<bar>" using less.prems(2) by simp
      have "nat (max \<bar>a - gx\<bar> \<bar>b - gy\<bar> - (sr + 1)) < nat (max \<bar>a - gx\<bar> \<bar>b - gy\<bar> - sr)"
        using lt by linarith
      from less.hyps[OF this ok' lt] show ?thesis unfolding unroll .
    qed
  qed
qed

lemma tsp_cell_range:
  assumes "in_image width height p"
  shows "0 \<le> \<lfloor>px p / tsp_cellSize\<rfloor>" "\<lfloor>px p / tsp_cellSize\<rfloor> < \<lceil>real width / tsp_cellSize\<rceil>"
    "0 \<le> \<lfloor>py p / tsp_cellSize\<rfloor>" "\<lfloor>py p / tsp_cellSize\<rfloor> < \<lceil>real height / tsp_cellSize\<rceil>"
  using assms cell_coord[of "px p" width] cell_coord[of "py p" height]
  by (simp_all add: in_image_def)

lemma tsp_cell_index:
  assumes "in_image width height p"
  shows "0 \<le> tsp_cell \<lceil>real width / tsp_cellSize\<rceil> p"
    "tsp_cell \<lceil>real width / tsp_cellSize\<rceil> p
       < \<lceil>real width / tsp_cellSize\<rceil> * \<lceil>real height / tsp_cellSize\<rceil>"
  unfolding tsp_cell_def
  using cell_index_range[OF tsp_cell_range(1,2)[OF assms] tsp_cell_range(3,4)[OF assms]]
  by simp_all

lemma built_step:
  assumes b: "built pts gw N k cells"
    and c: "0 \<le> tsp_cell gw (pts ! k)" "nat (tsp_cell gw (pts ! k)) < N"
  shows "build_cell pts gw k (Inr cells) =
           Inr (cells[nat (tsp_cell gw (pts ! k)) := cells ! nat (tsp_cell gw (pts ! k)) @ [k]])"
    and "built pts gw N (Suc k)
           (cells[nat (tsp_cell gw (pts ! k)) := cells ! nat (tsp_cell gw (pts ! k)) @ [k]])"
proof -
  let ?c = "nat (tsp_cell gw (pts ! k))"
  let ?cells' = "cells[?c := cells ! ?c @ [k]]"
  from b have len: "length cells = N"
    and small: "list_all (list_all (\<lambda>i. i < k)) cells"
    and mem: "\<And>i. i < k \<Longrightarrow> i \<in> set (cells ! nat (tsp_cell gw (pts ! i)))"
    by (auto simp: built_def list_all_iff)
  show "build_cell pts gw k (Inr cells) = Inr ?cells'"
    using c len by (simp add: build_cell_def Let_def tsp_cell_def)
  have l': "length ?cells' = N" using len by simp
  have s': "list_all (list_all (\<lambda>i. i < Suc k)) ?cells'"
  proof -
    have "list_all (\<lambda>i. i < Suc k) x" if "x \<in> set ?cells'" for x
    proof -
      from that have "x = cells ! ?c @ [k] \<or> x \<in> set cells"
        using set_update_subset_insert[of cells ?c "cells ! ?c @ [k]"] by auto
      moreover have "cells ! ?c \<in> set cells" using c len by simp
      ultimately show ?thesis using small by (auto simp: list_all_iff less_Suc_eq)
    qed
    then show ?thesis by (simp add: list_all_iff)
  qed
  have m': "i \<in> set (?cells' ! nat (tsp_cell gw (pts ! i)))" if "i < Suc k" for i
  proof (cases "nat (tsp_cell gw (pts ! i)) = ?c")
    case True
    then show ?thesis using that mem[of i] c len by (auto simp: less_Suc_eq)
  next
    case False
    then have "i \<noteq> k" by auto
    then show ?thesis using that mem[of i] False by (simp add: less_Suc_eq)
  qed
  show "built pts gw N (Suc k) ?cells'"
    using l' s' m' by (simp add: built_def list_all_iff)
qed

lemma build_prefix:
  assumes "list_all (in_image width height) pts" "k \<le> length pts"
  shows "\<exists>cells. fold (build_cell pts \<lceil>real width / tsp_cellSize\<rceil>) [0..<k]
                    (Inr (replicate (nat (\<lceil>real width / tsp_cellSize\<rceil> * \<lceil>real height / tsp_cellSize\<rceil>)) []))
                 = Inr cells
          \<and> built pts \<lceil>real width / tsp_cellSize\<rceil>
               (nat (\<lceil>real width / tsp_cellSize\<rceil> * \<lceil>real height / tsp_cellSize\<rceil>)) k cells"
  using assms(2)
proof (induction k)
  case 0
  then show ?case by (simp add: built_def list_all_iff)
next
  case (Suc k)
  let ?gw = "\<lceil>real width / tsp_cellSize\<rceil>"
  let ?N = "nat (?gw * \<lceil>real height / tsp_cellSize\<rceil>)"
  from Suc obtain cells where
    f: "fold (build_cell pts ?gw) [0..<k] (Inr (replicate ?N [])) = Inr cells"
    and b: "built pts ?gw ?N k cells" by auto
  have "pts ! k \<in> set pts" using Suc.prems by simp
  then have img: "in_image width height (pts ! k)" using assms(1) by (simp add: list_all_iff)
  from tsp_cell_index[OF img] have c: "0 \<le> tsp_cell ?gw (pts ! k)" "nat (tsp_cell ?gw (pts ! k)) < ?N"
    by linarith+
  from built_step[OF b c] f show ?case by simp
qed

lemma build_grid_ok:
  assumes "list_all (in_image width height) pts"
  shows "\<exists>g. build_grid pts \<lceil>real width / tsp_cellSize\<rceil> \<lceil>real height / tsp_cellSize\<rceil> = Inr g
           \<and> grid_ok \<lparr>t_points = pts, t_grid = g, t_gridWidth = \<lceil>real width / tsp_cellSize\<rceil>,
                       t_gridHeight = \<lceil>real height / tsp_cellSize\<rceil>, t_signal = sig\<rparr>"
  using build_prefix[OF assms, of "length pts"]
  by (auto simp: build_grid_def grid_ok_def built_def)

lemma nearest_finds:
  assumes g: "grid_ok env"
    and gw: "t_gridWidth env = \<lceil>real width / tsp_cellSize\<rceil>"
    and gh: "t_gridHeight env = \<lceil>real height / tsp_cellSize\<rceil>"
    and img: "list_all (in_image width height) (t_points env)"
    and cur: "cur < length (t_points env)"
    and i: "i < length (t_points env)" "usd ! i = False"
  shows "0 \<le> nearest env usd cur \<and> nat (nearest env usd cur) < length (t_points env)
         \<and> usd ! nat (nearest env usd cur) = False"
proof -
  let ?cp = "t_points env ! cur"
  let ?gx = "\<lfloor>px ?cp / tsp_cellSize\<rfloor>"
  let ?gy = "\<lfloor>py ?cp / tsp_cellSize\<rfloor>"
  let ?a = "\<lfloor>px (t_points env ! i) / tsp_cellSize\<rfloor>"
  let ?b = "\<lfloor>py (t_points env ! i) / tsp_cellSize\<rfloor>"
  let ?s0 = "\<lparr>nearestIdx = - 1, minDistSq = Infinity, found = False\<rparr>"
  let ?r = "ring_search env usd ?cp ?gx ?gy 0 ?s0"
  have ic: "in_image width height ?cp" "in_image width height (t_points env ! i)"
    using img cur i(1) by (simp_all add: list_all_iff)
  note c = tsp_cell_range[OF ic(1), folded gw gh]
  note t = tsp_cell_range[OF ic(2), folded gw gh]
  have mem: "i \<in> set (t_grid env ! nat (?b * t_gridWidth env + ?a))"
    using g i(1) by (simp add: grid_ok_def list_all_iff tsp_cell_def)
  have d: "max \<bar>?a - ?gx\<bar> \<bar>?b - ?gy\<bar> < max (t_gridWidth env) (t_gridHeight env)"
    using c t by linarith
  have ok0: "scan_ok env usd ?s0" by (simp add: scan_ok_def)
  have "found ?r"
    by (rule ring_search_found[OF g t mem i(2) d ok0]) simp
  moreover have "scan_ok env usd ?r" using g ok0 by (rule ring_search_ok)
  ultimately show ?thesis by (auto simp: nearest_def Let_def scan_ok_def)
qed

lemma unused_exists:
  assumes "tour_inv env st order" "remaining st > 0"
  shows "\<exists>i < length (t_points env). used st ! i = False"
proof (rule ccontr)
  assume "\<not> ?thesis"
  then have "set order = {i. i < length (t_points env)}" using assms(1) by (auto simp: tour_inv_def)
  then have "card (set order) = length (t_points env)" by simp
  moreover have "distinct order" using assms(1) by (simp add: tour_inv_def)
  then have "card (set order) = length order" by (rule distinct_card)
  ultimately show False using assms by (simp add: tour_inv_def)
qed

lemma tour_inv_step:
  assumes inv: "tour_inv env st order" and r: "remaining st > 0"
    and n: "0 \<le> n" "nat n < length (t_points env)" "used st ! nat n = False"
  shows "tour_inv env
           (st\<lparr>orderedPoints := orderedPoints st @ [t_points env ! nat n],
               used := (used st)[nat n := True], currentIdx := nat n,
               remaining := remaining st - 1\<rparr>)
           (order @ [nat n])"
proof -
  have notin: "nat n \<notin> set order" using inv n by (auto simp: tour_inv_def)
  have "{i. i < length (t_points env) \<and> (used st)[nat n := True] ! i}
        = insert (nat n) {i. i < length (t_points env) \<and> used st ! i}"
    using inv n by (auto simp: tour_inv_def nth_list_update)
  then show ?thesis using inv r n notin by (simp add: tour_inv_def)
qed

lemma tsp_loop_result:
  assumes g: "grid_ok env"
    and gw: "t_gridWidth env = \<lceil>real width / tsp_cellSize\<rceil>"
    and gh: "t_gridHeight env = \<lceil>real height / tsp_cellSize\<rceil>"
    and img: "list_all (in_image width height) (t_points env)"
  shows "tour_inv env st order \<Longrightarrow>
         (tsp_loop env st = Fulfilled st' \<longrightarrow> (\<exists>order'. tour_inv env st' order' \<and> remaining st' = 0))
         \<and> ((\<forall>k. t_signal env k = Proceed) \<longrightarrow> (\<exists>st''. tsp_loop env st = Fulfilled st''))"
proof (induction "remaining st" arbitrary: st order)
  case 0
  then show ?case by (subst tsp_loop.simps, subst (2) tsp_loop.simps) auto
next
  case (Suc k)
  let ?n = "nearest env (used st) (currentIdx st)"
  let ?st1 = "st\<lparr>orderedPoints := orderedPoints st @ [t_points env ! nat ?n],
               used := (used st)[nat ?n := True], currentIdx := nat ?n,
               remaining := remaining st - 1\<rparr>"
  have r: "remaining st > 0" using Suc.hyps(2) by simp
  from unused_exists[OF Suc.prems r] obtain i where i: "i < length (t_points env)" "used st ! i = False"
    by blast
  have cur: "currentIdx st < length (t_points env)" using Suc.prems by (simp add: tour_inv_def)
  from nearest_finds[OF g gw gh img cur i]
  have n: "0 \<le> ?n" "nat ?n < length (t_points env)" "used st ! nat ?n = False" by simp_all
  then have ne: "?n \<noteq> - 1" by simp
  have inv1: "tour_inv env ?st1 (order @ [nat ?n])" using Suc.prems r n by (rule tour_inv_step)
  have k: "k = remaining ?st1" using Suc.hyps(2) by simp
  note ih = Suc.hyps(1)[OF k inv1]
  have unroll: "tsp_loop env st =
      (if remaining st mod 1000 = 0 \<and> t_signal env (remaining st) = CancelRequested
       then Rejected (Error ''Cancelled by user'')
       else if remaining st mod 1000 = 0 \<and> t_signal env (remaining st) = PausedForever
       then Pending else tsp_loop env ?st1)"
    using r ne by (subst tsp_loop.simps) (simp add: Let_def)
  show ?case unfolding unroll using ih by auto
qed

lemma perm_of_indices:
  assumes "distinct order" "set order = {i. i < length pts}"
  shows "mset (map ((!) pts) order) = mset pts"
proof -
  have s: "set order = set [0..<length pts]"
    unfolding assms(2) by (simp add: atLeast0LessThan lessThan_def)
  have d: "distinct [0..<length pts]" by simp
  have m: "mset order = mset [0..<length pts]"
    using set_eq_iff_mset_eq_distinct[OF assms(1) d] s by (rule iffD1)
  have "map ((!) pts) [0..<length pts] = pts" by (rule map_nth)
  then have "mset pts = mset (map ((!) pts) [0..<length pts])" by (rule arg_cong[OF sym])
  also have "\<dots> = image_mset ((!) pts) (mset [0..<length pts])" by (rule mset_map)
  also have "\<dots> = image_mset ((!) pts) (mset order)" by (rule arg_cong[OF m[symmetric]])
  also have "\<dots> = mset (map ((!) pts) order)" by (rule mset_map[symmetric])
  finally show ?thesis by (rule sym)
qed

lemma tour_inv_done:
  assumes "tour_inv env st order" "remaining st = 0"
  shows "mset (orderedPoints st) = mset (t_points env)"
proof -
  from assms have d: "distinct order" and len: "length order = length (t_points env)"
    and sub: "set order \<subseteq> {i. i < length (t_points env)}"
    and o: "orderedPoints st = map ((!) (t_points env)) order"
    by (auto simp: tour_inv_def)
  have "card (set order) = card {i. i < length (t_points env)}"
    using d len by (simp add: distinct_card)
  with sub have "set order = {i. i < length (t_points env)}"
    by (intro card_subset_eq) auto
  from perm_of_indices[OF d this] o show ?thesis by simp
qed

text \<open>
  C9. For points inside the image, as the stipple sampler produces them, the tour builder
  returns the empty tour list when there are fewer than 2 points; when there are at least
  2 points, a run that is neither cancelled nor paused returns exactly one tour, and the
  tour of every run that returns is a permutation of the input points: it contains each
  input point exactly once.
\<close>

theorem tour_visits_every_point:
  assumes "list_all (in_image width height) pts"
  shows "(length pts < 2 \<longrightarrow> tourBuilder sig width height pts = Fulfilled [])
       \<and> (2 \<le> length pts \<longrightarrow>
            (\<exists>tour. tourBuilder (\<lambda>_. Proceed) width height pts = Fulfilled [tour] \<and> mset tour = mset pts)
          \<and> (\<forall>r. tourBuilder sig width height pts = Fulfilled r \<longrightarrow>
                 (\<exists>tour. r = [tour] \<and> mset tour = mset pts)))"
proof (intro conjI impI)
  show "tourBuilder sig width height pts = Fulfilled []" if "length pts < 2"
    using that by (simp add: tourBuilder_def)
next
  assume n: "2 \<le> length pts"
  then have ne: "pts \<noteq> []" by (cases pts) simp_all
  let ?gw = "\<lceil>real width / tsp_cellSize\<rceil>"
  let ?gh = "\<lceil>real height / tsp_cellSize\<rceil>"
  let ?st0 = "\<lparr>currentIdx = 0, orderedPoints = [pts ! 0],
               used = (replicate (length pts) False)[0 := True], remaining = length pts - 1\<rparr>"
  have run: "(\<forall>r. tourBuilder s width height pts = Fulfilled r \<longrightarrow>
                (\<exists>tour. r = [tour] \<and> mset tour = mset pts))
           \<and> ((\<forall>k. s k = Proceed) \<longrightarrow> (\<exists>r. tourBuilder s width height pts = Fulfilled r))" for s
  proof -
    from build_grid_ok[OF assms, of s] obtain g where
      b: "build_grid pts ?gw ?gh = Inr g"
      and ok: "grid_ok \<lparr>t_points = pts, t_grid = g, t_gridWidth = ?gw, t_gridHeight = ?gh, t_signal = s\<rparr>"
      by blast
    let ?env = "\<lparr>t_points = pts, t_grid = g, t_gridWidth = ?gw, t_gridHeight = ?gh, t_signal = s\<rparr>"
    have "0 < length (replicate (length pts) False)" using n by (cases pts) simp_all
    then have "(replicate (length pts) False)[0 := True] ! 0 = True" by (rule nth_list_update_eq)
    then have z: "(replicate (length pts) False)[0 := True] ! 0" by (simp only:)
    have nz: "\<not> (replicate (length pts) False)[0 := True] ! i" if "i < length pts" "i \<noteq> 0" for i
      using that by simp
    have "{i. i < length pts \<and> (replicate (length pts) False)[0 := True] ! i} = {0}"
    proof (intro equalityI subsetI)
      fix i assume "i \<in> {i. i < length pts \<and> (replicate (length pts) False)[0 := True] ! i}"
      then show "i \<in> {0}" using nz[of i] by auto
    next
      fix i :: nat assume "i \<in> {0}"
      then show "i \<in> {i. i < length pts \<and> (replicate (length pts) False)[0 := True] ! i}"
        using z ne by simp
    qed
    then have inv0: "tour_inv ?env ?st0 [0]" using n ne by (simp add: tour_inv_def)
    have img: "list_all (in_image width height) (t_points ?env)" using assms by simp
    have res: "\<And>st'. (tsp_loop ?env ?st0 = Fulfilled st' \<longrightarrow>
                  (\<exists>order'. tour_inv ?env st' order' \<and> remaining st' = 0))
             \<and> ((\<forall>k. t_signal ?env k = Proceed) \<longrightarrow> (\<exists>st''. tsp_loop ?env ?st0 = Fulfilled st''))"
      by (rule tsp_loop_result[OF ok _ _ img inv0]) simp_all
    have tb: "tourBuilder s width height pts =
        (case tsp_loop ?env ?st0 of Fulfilled st \<Rightarrow> Fulfilled [orderedPoints st]
          | Rejected e \<Rightarrow> Rejected e | Pending \<Rightarrow> Pending)"
      using n ne b by (simp add: tourBuilder_def Let_def)
    have a: "\<exists>tour. r = [tour] \<and> mset tour = mset pts" if "tourBuilder s width height pts = Fulfilled r" for r
    proof -
      from that obtain st' where l: "tsp_loop ?env ?st0 = Fulfilled st'" and r: "r = [orderedPoints st']"
        unfolding tb by (cases "tsp_loop ?env ?st0") simp_all
      from res[of st'] l obtain order' where "tour_inv ?env st' order'" "remaining st' = 0" by blast
      from tour_inv_done[OF this] r show ?thesis by simp
    qed
    have "\<exists>r. tourBuilder s width height pts = Fulfilled r" if "\<forall>k. s k = Proceed"
    proof -
      from res[of undefined] that obtain st'' where "tsp_loop ?env ?st0 = Fulfilled st''" by auto
      then show ?thesis unfolding tb by simp
    qed
    with a show ?thesis by blast
  qed
  from run[of "\<lambda>_. Proceed"] obtain r where r: "tourBuilder (\<lambda>_. Proceed) width height pts = Fulfilled r"
    by blast
  with run[of "\<lambda>_. Proceed"] obtain tour where "r = [tour]" "mset tour = mset pts" by blast
  with r
  show "\<exists>tour. tourBuilder (\<lambda>_. Proceed) width height pts = Fulfilled [tour] \<and> mset tour = mset pts"
    by blast
  from run[of sig]
  show "\<forall>r. tourBuilder sig width height pts = Fulfilled r \<longrightarrow> (\<exists>tour. r = [tour] \<and> mset tour = mset pts)"
    by blast
qed

theorem tour_visits_every_point_witness:
  "list_all (in_image 10 10) three_dots
   \<and> 2 \<le> length three_dots
   \<and> (\<exists>tour. tourBuilder (\<lambda>_. Proceed) 10 10 three_dots = Fulfilled [tour]
              \<and> mset tour = mset three_dots)"
  using tour_visits_every_point [of 10 10 three_dots "\<lambda>_. Proceed"]
  by (simp add: three_dots_def in_image_def)

section \<open>Properties of the job handlers\<close>

lemma timed_throws:
  "timed job body = ([], Rejected (ReferenceError ''Cannot access performance before initialization''))"
  by (simp add: timed_def performance_now_def)

lemma with_arguments_timed:
  "\<exists>e. with_arguments params options (\<lambda>p opt. timed job (body p opt)) = ([], Rejected e)"
  by (cases params; cases options) (simp_all add: with_arguments_def destructure_def timed_throws)

lemma with_arguments_timed_defined:
  "with_arguments (Some p) (Some opt) (\<lambda>p opt. timed job (body p opt))
     = ([], Rejected (ReferenceError ''Cannot access performance before initialization''))"
  by (simp add: with_arguments_def destructure_def timed_throws)

lemma await_catch_rejected:
  "await_catch job ([], Rejected e) = ([error_event job (message_of e)], Fulfilled ())"
  by (simp add: await_catch_def)

lemma handleExtractStipple_rejects:
  "\<exists>e. handleExtractStipple rnd sig job params options = ([], Rejected e)"
  unfolding handleExtractStipple_def by (rule with_arguments_timed)

lemma handleExtractTSP_pending:
  "handleExtractTSP rnd sig job params options = ([], Pending)"
proof -
  obtain e where "handleExtractStipple rnd sig job params (Some (spread options)) = ([], Rejected e)"
    using handleExtractStipple_rejects by blast
  then show ?thesis by (simp add: handleExtractTSP_def resolve_with_data_def)
qed

text \<open>
  The promise the tour handler waits for is settled by no outcome a handler can have:
  not by a rejection, and not by the fulfilment with \<open>undefined\<close> of a handler that
  finishes.
\<close>

lemma resolve_with_data_unsettled:
  "resolve_with_data (Rejected e) = Pending"
  "resolve_with_data (Fulfilled Undefined) = Pending"
  "resolve_with_data Pending = Pending"
  by (simp_all add: resolve_with_data_def)

text \<open>
  The five handlers other than the tour handler: whatever the arguments and whatever the
  body would compute, the job posts exactly one event, an error event, and
  \<open>executeTask\<close> finishes. With both arguments defined the error is the
  \<open>ReferenceError\<close> of the first timing call.
\<close>

lemma timed_jobs_post_one_error:
  assumes "method \<in> {''solveEikonalCPU'', ''extractContoursAdaptive'', ''extractStreamlines'',
                       ''extractStipple'', ''extractHatch''}"
  shows "\<exists>msg. executeTask contours streamlines hatch rnd sig job method params options
           = ([error_event job msg], Fulfilled ())"
proof -
  have s: "\<exists>e. handleSolveEikonalCPU sig job params options = ([], Rejected e)"
    unfolding handleSolveEikonalCPU_def by (rule with_arguments_timed)
  have c: "\<exists>e. handleExtractContoursAdaptive contours job params options = ([], Rejected e)"
    unfolding handleExtractContoursAdaptive_def by (rule with_arguments_timed)
  have l: "\<exists>e. handleExtractStreamlines streamlines job params options = ([], Rejected e)"
    unfolding handleExtractStreamlines_def by (rule with_arguments_timed)
  have h: "\<exists>e. handleExtractHatch hatch job params options = ([], Rejected e)"
    unfolding handleExtractHatch_def by (rule with_arguments_timed)
  have p: "\<exists>e. handleExtractStipple rnd sig job params options = ([], Rejected e)"
    by (rule handleExtractStipple_rejects)
  from assms have "method = ''solveEikonalCPU'' \<or> method = ''extractContoursAdaptive''
      \<or> method = ''extractStreamlines'' \<or> method = ''extractStipple'' \<or> method = ''extractHatch''"
    by (simp only: insert_iff empty_iff simp_thms)
  then show ?thesis
  proof (elim disjE)
    assume m: "method = ''solveEikonalCPU''"
    from s obtain e where "handleSolveEikonalCPU sig job params options = ([], Rejected e)" ..
    then show ?thesis unfolding m by (simp add: executeTask_def await_catch_rejected)
  next
    assume m: "method = ''extractContoursAdaptive''"
    from c obtain e where "handleExtractContoursAdaptive contours job params options = ([], Rejected e)" ..
    then show ?thesis unfolding m by (simp add: executeTask_def await_catch_rejected)
  next
    assume m: "method = ''extractStreamlines''"
    from l obtain e where "handleExtractStreamlines streamlines job params options = ([], Rejected e)" ..
    then show ?thesis unfolding m by (simp add: executeTask_def await_catch_rejected)
  next
    assume m: "method = ''extractStipple''"
    from p obtain e where "handleExtractStipple rnd sig job params options = ([], Rejected e)" ..
    then show ?thesis unfolding m by (simp add: executeTask_def await_catch_rejected)
  next
    assume m: "method = ''extractHatch''"
    from h obtain e where "handleExtractHatch hatch job params options = ([], Rejected e)" ..
    then show ?thesis unfolding m by (simp add: executeTask_def await_catch_rejected)
  qed
qed

lemma unknown_method_posts_one_error:
  assumes "method \<notin> {''solveEikonalCPU'', ''extractContoursAdaptive'', ''extractStreamlines'',
                       ''extractStipple'', ''extractTSP'', ''extractHatch''}"
  shows "executeTask contours streamlines hatch rnd sig job method params options
           = ([error_event job (''Unknown method: '' @ method)], Fulfilled ())"
  using assms by (simp add: executeTask_def)

lemma stipple_job_posts_reference_error:
  "executeTask contours streamlines hatch rnd sig job ''extractStipple'' (Some p) (Some opt)
     = ([error_event job ''Cannot access performance before initialization''], Fulfilled ())"
  by (simp add: executeTask_def handleExtractStipple_def with_arguments_timed_defined
      await_catch_rejected)

text \<open>
  C1 at the tour jobs. A job of the method \<open>extractTSP\<close>, with any arguments, posts no
  event at all, neither an error event nor a result, and \<open>executeTask\<close> never finishes:
  the stipple handler it starts is rejected by the \<open>ReferenceError\<close> of its first timing
  call (or by the \<open>TypeError\<close> of destructuring undefined arguments), the \<open>then\<close> of
  line 718 has no rejection callback, so \<open>resolve\<close> is never called and the handler waits
  forever at line 716. The jobs of the other five methods end with one error event.
\<close>

theorem tour_job_posts_no_event:
  "executeTask contours streamlines hatch rnd sig job ''extractTSP'' params options = ([], Pending)"
  by (simp add: executeTask_def handleExtractTSP_pending await_catch_def)

section \<open>The worker pool: cancellation\<close>

text \<open>
  C10. For a task that is in the active-task table, \<open>cancelTask\<close> removes it from the
  table and lowers its worker's task count by one in the same call; every other entry
  of the table stays. The worker is only sent the cancel message: its own cancellation
  flag and the number of checkpoints it has reached are what they were, whatever they
  were, so nothing waits for the worker to notice.
\<close>

theorem cancelTask_frees_slot:
  assumes "activeTasks p tid = Some t"
  shows "activeTasks (cancelTask p tid) tid = None
       \<and> taskCount (store (cancelTask p tid) (task_worker t)) = taskCount (store p (task_worker t)) - 1
       \<and> inbox (store (cancelTask p tid) (task_worker t)) = inbox (store p (task_worker t)) @ [CancelMsg tid]
       \<and> isCancelled (store (cancelTask p tid) (task_worker t)) = isCancelled (store p (task_worker t))
       \<and> checkpoints (store (cancelTask p tid) (task_worker t)) = checkpoints (store p (task_worker t))
       \<and> dom (activeTasks (cancelTask p tid)) = dom (activeTasks p) - {tid}"
  using assms by (auto simp: cancelTask_def postMessage_def Let_def split: if_splits)

theorem cancelTask_frees_slot_witness:
  "activeTasks (fst (execute_on (\<lambda>_. ''1'') one_worker_pool 0 ''solveEikonalCPU'')) ''task_1''
     = Some \<lparr>taskId = ''task_1'', task_method = ''solveEikonalCPU'', task_worker = 0\<rparr>
   \<and> activeTasks (cancelTask (fst (execute_on (\<lambda>_. ''1'') one_worker_pool 0 ''solveEikonalCPU'')) ''task_1'') ''task_1'' = None
   \<and> taskCount (store (cancelTask (fst (execute_on (\<lambda>_. ''1'') one_worker_pool 0 ''solveEikonalCPU'')) ''task_1'') 0) = 0
   \<and> checkpoints (store (cancelTask (fst (execute_on (\<lambda>_. ''1'') one_worker_pool 0 ''solveEikonalCPU'')) ''task_1'') 0) = 0"
proof -
  let ?p = "fst (execute_on (\<lambda>_. ''1'') one_worker_pool 0 ''solveEikonalCPU'')"
  let ?t = "\<lparr>taskId = ''task_1'', task_method = ''solveEikonalCPU'', task_worker = 0\<rparr>"
  have h: "activeTasks ?p ''task_1'' = Some ?t"
    by (simp add: execute_on_def one_worker_pool_def postMessage_def Let_def)
  have c: "taskCount (store ?p 0) = 1" "checkpoints (store ?p 0) = 0"
    by (simp_all add: execute_on_def one_worker_pool_def postMessage_def fresh_worker_def Let_def)
  from cancelTask_frees_slot [OF h] h c show ?thesis by simp
qed

end
